theory Spec2Isabelle
  imports Main "HOL-Library.AList"
begin

section \<open>JavaScript values\<close>

text \<open>
  The conversion engine works on plain JavaScript values: strings on the Markdown side,
  object trees (the document format) on the other. A value is modelled as a tree of
  the JSON kinds plus \<open>undefined\<close>; an object is an association list of its own
  properties. Strings are lists of code units below 256, numbers are integers.
\<close>

datatype json =
    JUndefined
  | JNull
  | JBool bool
  | JNum int
  | JStr string
  | JArr "json list"
  | JObj "(string \<times> json) list"

text \<open>
  What a call can do instead of returning. \<open>TypeError\<close> and \<open>RangeError\<close> are the
  exceptions of the runtime. \<open>Unmodelled\<close> marks the inputs on which the source relies
  on a coercion of the runtime that this development does not describe (the string
  form of a non-string value, the numeric form of a non-number): nothing is stated
  about the source on such an input.
\<close>

datatype error = TypeError | RangeError | Unmodelled

text \<open>\<open>!v\<close> is false exactly on the truthy values.\<close>

fun truthy :: "json \<Rightarrow> bool" where
  "truthy JUndefined = False"
| "truthy JNull = False"
| "truthy (JBool b) = b"
| "truthy (JNum n) = (n \<noteq> 0)"
| "truthy (JStr s) = (s \<noteq> [])"
| "truthy (JArr xs) = True"
| "truthy (JObj kv) = True"

text \<open>
  \<open>v.k\<close> for the property names the source reads (\<open>type\<close>, \<open>content\<close>, \<open>text\<close>,
  \<open>marks\<close>, \<open>attrs\<close> and the attribute names): reading a property of \<open>null\<close> or
  \<open>undefined\<close> throws, an object gives its own property or \<open>undefined\<close>, and no
  primitive or array has a property of one of these names.
\<close>

fun get_prop :: "json \<Rightarrow> string \<Rightarrow> error + json" where
  "get_prop JUndefined k = Inl TypeError"
| "get_prop JNull k = Inl TypeError"
| "get_prop (JObj kv) k = Inr (case map_of kv k of Some v \<Rightarrow> v | None \<Rightarrow> JUndefined)"
| "get_prop v k = Inr JUndefined"

text \<open>\<open>v?.k\<close>\<close>

fun opt_prop :: "json \<Rightarrow> string \<Rightarrow> json" where
  "opt_prop (JObj kv) k = (case map_of kv k of Some v \<Rightarrow> v | None \<Rightarrow> JUndefined)"
| "opt_prop v k = JUndefined"

text \<open>\<open>a || b\<close>\<close>

definition or_else :: "json \<Rightarrow> json \<Rightarrow> json" where
  "or_else a b = (if truthy a then a else b)"

section \<open>Strings\<close>

text \<open>
  The white space of \<open>trim\<close> and of \<open>\s\<close> (tab, line feed, vertical tab, form feed,
  carriage return, space, no-break space), the line terminators that \<open>.\<close> refuses,
  and the digits of \<open>\d\<close>.
\<close>

definition isSpace :: "char \<Rightarrow> bool" where
  "isSpace c \<longleftrightarrow>
     c \<in> set [CHR 0x09, CHR 0x0A, CHR 0x0B, CHR 0x0C, CHR 0x0D, CHR 0x20, CHR 0xA0]"

definition isLineTerminator :: "char \<Rightarrow> bool" where
  "isLineTerminator c \<longleftrightarrow> c = CHR 0x0A \<or> c = CHR 0x0D"

definition isDigit :: "char \<Rightarrow> bool" where
  "isDigit c \<longleftrightarrow> c \<in> set ''0123456789''"

definition trim :: "string \<Rightarrow> string" where
  "trim s = rev (dropWhile isSpace (rev (dropWhile isSpace s)))"

definition startsWith :: "string \<Rightarrow> string \<Rightarrow> bool" where
  "startsWith s p \<longleftrightarrow> take (length p) s = p"

text \<open>\<open>s.split('\n')\<close>: never empty, \<open>''.split('\n')\<close> is \<open>['']\<close>.\<close>

fun split_newline :: "string \<Rightarrow> string list" where
  "split_newline [] = [[]]"
| "split_newline (c # cs) =
     (if c = CHR 0x0A then [] # split_newline cs
      else (c # hd (split_newline cs)) # tl (split_newline cs))"

text \<open>\<open>xs.join(sep)\<close> on an array of strings.\<close>

fun join :: "string \<Rightarrow> string list \<Rightarrow> string" where
  "join sep [] = []"
| "join sep [x] = x"
| "join sep (x # y # ys) = x @ sep @ join sep (y # ys)"

section \<open>Nodes of the document tree, as the parser builds them\<close>

definition text_node :: "string \<Rightarrow> json" where
  "text_node t = JObj [(''type'', JStr ''text''), (''text'', JStr t)]"

definition marked_node :: "string \<Rightarrow> json \<Rightarrow> json" where
  "marked_node t m =
     JObj [(''type'', JStr ''text''), (''text'', JStr t), (''marks'', JArr [m])]"

definition simple_mark :: "string \<Rightarrow> json" where
  "simple_mark ty = JObj [(''type'', JStr ty)]"

definition link_mark :: "string \<Rightarrow> json" where
  "link_mark href =
     JObj [(''type'', JStr ''link''), (''attrs'', JObj [(''href'', JStr href)])]"

definition paragraph_node :: "json list \<Rightarrow> json" where
  "paragraph_node c = JObj [(''type'', JStr ''paragraph''), (''content'', JArr c)]"

definition heading_node :: "int \<Rightarrow> json list \<Rightarrow> json" where
  "heading_node level c =
     JObj [(''type'', JStr ''heading''), (''attrs'', JObj [(''level'', JNum level)]),
           (''content'', JArr c)]"

definition listItem_node :: "json list \<Rightarrow> json" where
  "listItem_node c = JObj [(''type'', JStr ''listItem''), (''content'', JArr [paragraph_node c])]"

definition list_node :: "string \<Rightarrow> json list \<Rightarrow> json" where
  "list_node kind items = JObj [(''type'', JStr kind), (''content'', JArr items)]"

definition rule_node :: json where
  "rule_node = JObj [(''type'', JStr ''rule'')]"

section \<open>Inline tokenizer\<close>

text \<open>
  The tokenizer runs one regular expression with six alternatives over the line:
  \<^verbatim>\<open>\*\*([^*]+)\*\*|~~([^~]+)~~|\*([^*]+)\*|\[([^\]]+)\]\(([^)]+)\)|\[([^\]]+)\|([^\]]+)\]|`([^`]+)`\<close>

  \<open>delimited opn stop cls s\<close> matches, at the start of \<open>s\<close>, the literal \<open>opn\<close>, a
  non-empty group of characters other than \<open>stop\<close>, and the literal \<open>cls\<close>, which
  begins with \<open>stop\<close>: the group is then the longest run of such characters, since a
  shorter one is followed by a character that \<open>cls\<close> refuses. It gives the group and
  the text after the match.
\<close>

definition delimited :: "string \<Rightarrow> char \<Rightarrow> string \<Rightarrow> string \<Rightarrow> (string \<times> string) option" where
  "delimited opn stop cls s =
     (if startsWith s opn then
        (let r = drop (length opn) s;
             body = takeWhile (\<lambda>c. c \<noteq> stop) r;
             r' = dropWhile (\<lambda>c. c \<noteq> stop) r
         in if body \<noteq> [] \<and> startsWith r' cls then Some (body, drop (length cls) r')
            else None)
      else None)"

text \<open>
  \<^verbatim>\<open>([^\]]+)\|([^\]]+)\<close> on the whole run of characters between \<open>[\<close> and \<open>]\<close>: the
  first group is greedy, so it first tries to take one more character, and stops
  before a \<open>|\<close> only when no later split succeeds.
\<close>

fun pipe_split :: "string \<Rightarrow> (string \<times> string) option" where
  "pipe_split [] = None"
| "pipe_split (c # cs) =
     (case pipe_split cs of
        Some (a, b) \<Rightarrow> Some (c # a, b)
      | None \<Rightarrow>
          (case cs of
             [] \<Rightarrow> None
           | d # b \<Rightarrow> if d = CHR ''|'' \<and> b \<noteq> [] then Some ([c], b) else None))"

text \<open>
  One attempt of the regular expression at the start of \<open>s\<close>: the alternatives in
  their order, the first that matches wins. The result is the node that the loop
  body pushes for the match, and the text after the match.
\<close>

definition link_paren :: "string \<Rightarrow> ((string \<times> string) \<times> string) option" where
  "link_paren s =
     (case delimited ''['' (CHR '']'') '']('' s of
        Some (t, r) \<Rightarrow>
          (case delimited [] (CHR '')'') '')'' r of
             Some (h, r') \<Rightarrow> Some ((t, h), r')
           | None \<Rightarrow> None)
      | None \<Rightarrow> None)"

definition link_pipe :: "string \<Rightarrow> ((string \<times> string) \<times> string) option" where
  "link_pipe s =
     (case delimited ''['' (CHR '']'') '']'' s of
        Some (run, r) \<Rightarrow>
          (case pipe_split run of
             Some (t, h) \<Rightarrow> Some ((t, h), r)
           | None \<Rightarrow> None)
      | None \<Rightarrow> None)"

definition match_at :: "string \<Rightarrow> (json \<times> string) option" where
  "match_at s =
     (case delimited ''**'' (CHR ''*'') ''**'' s of
        Some (t, r) \<Rightarrow> Some (marked_node t (simple_mark ''strong''), r)
      | None \<Rightarrow>
     (case delimited ''~~'' (CHR ''~'') ''~~'' s of
        Some (t, r) \<Rightarrow> Some (marked_node t (simple_mark ''strike''), r)
      | None \<Rightarrow>
     (case delimited ''*'' (CHR ''*'') ''*'' s of
        Some (t, r) \<Rightarrow> Some (marked_node t (simple_mark ''em''), r)
      | None \<Rightarrow>
     (case link_paren s of
        Some ((t, h), r) \<Rightarrow> Some (marked_node t (link_mark h), r)
      | None \<Rightarrow>
     (case link_pipe s of
        Some ((t, h), r) \<Rightarrow> Some (marked_node t (link_mark h), r)
      | None \<Rightarrow>
     (case delimited ''`'' (CHR ''`'') ''`'' s of
        Some (t, r) \<Rightarrow> Some (marked_node t (simple_mark ''code''), r)
      | None \<Rightarrow> None))))))"

lemma dropWhile_shorter: "takeWhile P xs \<noteq> [] \<Longrightarrow> length (dropWhile P xs) < length xs"
  by (cases xs) (auto simp: le_imp_less_Suc length_dropWhile_le split: if_splits)

lemma delimited_shorter: "delimited opn stop cls s = Some (b, r) \<Longrightarrow> length r < length s"
proof -
  assume a: "delimited opn stop cls s = Some (b, r)"
  let ?r = "drop (length opn) s"
  from a have b: "takeWhile (\<lambda>c. c \<noteq> stop) ?r \<noteq> []"
    and r: "r = drop (length cls) (dropWhile (\<lambda>c. c \<noteq> stop) ?r)"
    by (auto simp: delimited_def Let_def split: if_splits)
  have "length r \<le> length (dropWhile (\<lambda>c. c \<noteq> stop) ?r)"
    by (simp add: r)
  also have "\<dots> < length ?r"
    using b by (rule dropWhile_shorter)
  also have "\<dots> \<le> length s"
    by simp
  finally show ?thesis .
qed

lemma link_paren_shorter: "link_paren s = Some (th, r) \<Longrightarrow> length r < length s"
  unfolding link_paren_def
  by (auto split: option.splits dest!: delimited_shorter)

lemma link_pipe_shorter: "link_pipe s = Some (th, r) \<Longrightarrow> length r < length s"
  unfolding link_pipe_def
  by (auto split: option.splits dest!: delimited_shorter)

lemma match_at_shorter: "match_at s = Some (n, r) \<Longrightarrow> length r < length s"
  unfolding match_at_def
  by (auto split: option.splits
      dest: delimited_shorter link_paren_shorter link_pipe_shorter)

text \<open>
  The \<open>while ((match = regex.exec(text)) !== null)\<close> loop. \<open>pending\<close> is the text
  between \<open>lastIndex\<close> and the position the search has reached; the second argument
  is the text from that position on. A search that reaches the end without a match
  ends the loop, and the text after \<open>lastIndex\<close>, if any, is pushed as a plain run.
\<close>

function scan_spans :: "string \<Rightarrow> string \<Rightarrow> json list" where
  "scan_spans pending [] = (if pending = [] then [] else [text_node pending])"
| "scan_spans pending (c # cs) =
     (case match_at (c # cs) of
        Some (node, rest) \<Rightarrow>
          (if pending = [] then [] else [text_node pending]) @ node # scan_spans [] rest
      | None \<Rightarrow> scan_spans (pending @ [c]) cs)"
  by pat_completeness auto
termination
  by (relation "measure (\<lambda>(p, s). length s)") (auto dest: match_at_shorter)

definition parseInlineContent :: "string \<Rightarrow> json list" where
  "parseInlineContent text =
     (if text = [] then []
      else (let parts = scan_spans [] text
            in if parts \<noteq> [] then parts
               else if text \<noteq> [] then [text_node text] else []))"

section \<open>Block builder\<close>

text \<open>
  \<^verbatim>\<open>\s+(.+)\<close> at the start of a string, giving the group. \<open>\s+\<close> is greedy: it
  takes one more white-space character while the rest still matches, and gives the
  character back to \<open>(.+)\<close> otherwise. \<open>(.+)\<close> takes every character up to the first
  line terminator.
\<close>

definition dot_plus :: "string \<Rightarrow> string option" where
  "dot_plus s =
     (let g = takeWhile (\<lambda>c. \<not> isLineTerminator c) s in if g = [] then None else Some g)"

fun ws_then_text :: "string \<Rightarrow> string option" where
  "ws_then_text [] = None"
| "ws_then_text (c # cs) =
     (if isSpace c then (case ws_then_text cs of Some g \<Rightarrow> Some g | None \<Rightarrow> dot_plus cs)
      else None)"

text \<open>\<^verbatim>\<open>line.match(/^h([1-6])\.\s+(.+)/)\<close>: the two groups.\<close>

definition jiraHeading :: "string \<Rightarrow> (char \<times> string) option" where
  "jiraHeading line =
     (case line of
        h # d # p # r \<Rightarrow>
          if h = CHR ''h'' \<and> d \<in> set ''123456'' \<and> p = CHR ''.''
          then map_option (Pair d) (ws_then_text r) else None
      | _ \<Rightarrow> None)"

text \<open>\<open>parseInt\<close> of a one-digit group.\<close>

definition parseInt :: "char \<Rightarrow> int" where
  "parseInt d = int (of_char d) - 48"

text \<open>
  \<^verbatim>\<open>line.match(/^(#{1,6})\s+(.+)/)\<close>: the length of the first group and the second
  group. \<open>hashes n\<close> may still take \<open>n\<close> characters \<open>#\<close>, greedily.
\<close>

fun hashes :: "nat \<Rightarrow> string \<Rightarrow> (nat \<times> string) option" where
  "hashes 0 s = None"
| "hashes (Suc n) [] = None"
| "hashes (Suc n) (c # cs) =
     (if c = CHR ''#'' then
        (case hashes n cs of
           Some (k, g) \<Rightarrow> Some (Suc k, g)
         | None \<Rightarrow> map_option (Pair 1) (ws_then_text cs))
      else None)"

definition mdHeading :: "string \<Rightarrow> (nat \<times> string) option" where
  "mdHeading line = hashes 6 line"

text \<open>
  \<^verbatim>\<open>/^\d+\.\s+/.test(line)\<close> and, when it holds, \<^verbatim>\<open>line.replace(/^\d+\.\s+/, '')\<close>.
\<close>

definition ordered_marker :: "string \<Rightarrow> string option" where
  "ordered_marker line =
     (if takeWhile isDigit line = [] then None
      else (case dropWhile isDigit line of
              [] \<Rightarrow> None
            | p # r \<Rightarrow>
                if p = CHR ''.'' \<and> takeWhile isSpace r \<noteq> [] then Some (dropWhile isSpace r)
                else None))"

text \<open>\<open>lastNode && lastNode.type === kind\<close>, for \<open>lastNode = nodes[nodes.length - 1]\<close>.\<close>

definition last_is :: "json list \<Rightarrow> string \<Rightarrow> bool" where
  "last_is nodes kind \<longleftrightarrow>
     nodes \<noteq> [] \<and> truthy (last nodes) \<and> get_prop (last nodes) ''type'' = Inr (JStr kind)"

text \<open>
  \<open>node.content.push(x)\<close>: throws unless \<open>content\<close> is an array. The array is changed
  in place; the model gives the node with the longer array.
\<close>

definition push_content :: "json \<Rightarrow> json \<Rightarrow> error + json" where
  "push_content node x =
     (case node of
        JObj kv \<Rightarrow>
          (case map_of kv ''content'' of
             Some (JArr xs) \<Rightarrow> Inr (JObj (AList.update ''content'' (JArr (xs @ [x])) kv))
           | _ \<Rightarrow> Inl TypeError)
      | _ \<Rightarrow> Inl TypeError)"

definition push_to_last :: "json list \<Rightarrow> json \<Rightarrow> error + json list" where
  "push_to_last nodes x =
     (case push_content (last nodes) x of
        Inl e \<Rightarrow> Inl e
      | Inr n \<Rightarrow> Inr (butlast nodes @ [n]))"

definition addBulletItem :: "json list \<Rightarrow> json list \<Rightarrow> error + json list" where
  "addBulletItem nodes content =
     (let listItem = listItem_node content
      in if last_is nodes ''bulletList'' then push_to_last nodes listItem
         else Inr (nodes @ [list_node ''bulletList'' [listItem]]))"

definition addOrderedItem :: "json list \<Rightarrow> json list \<Rightarrow> error + json list" where
  "addOrderedItem nodes content =
     (let listItem = listItem_node content
      in if last_is nodes ''orderedList'' then push_to_last nodes listItem
         else Inr (nodes @ [list_node ''orderedList'' [listItem]]))"

text \<open>The quote branch of the loop body.\<close>

definition addQuoteLine :: "json list \<Rightarrow> string \<Rightarrow> error + json list" where
  "addQuoteLine nodes text =
     (if last_is nodes ''blockquote''
      then push_to_last nodes (paragraph_node (parseInlineContent text))
      else Inr (nodes @ [list_node ''blockquote'' [paragraph_node (parseInlineContent text)]]))"

text \<open>
  The fence branch: \<open>lang\<close> is \<open>null\<close> for a bare fence, the object gets \<open>content\<close>
  only for a non-empty \<open>codeText\<close> and \<open>attrs\<close> only for a non-empty \<open>lang\<close>.
\<close>

definition fence_lang :: "string \<Rightarrow> string option" where
  "fence_lang line = (if length line > 3 then Some (trim (drop 3 line)) else None)"

definition codeBlock_node :: "string \<Rightarrow> string option \<Rightarrow> json" where
  "codeBlock_node codeText lang =
     JObj ([(''type'', JStr ''codeBlock'')]
           @ (if codeText \<noteq> [] then [(''content'', JArr [text_node codeText])] else [])
           @ (case lang of
                Some l \<Rightarrow> if l \<noteq> [] then [(''attrs'', JObj [(''language'', JStr l)])] else []
              | None \<Rightarrow> []))"

text \<open>
  The inner \<open>while\<close> loop of the fence branch, on the lines after the opening one:
  the lines it collects, and the lines left for the outer loop once its \<open>i++\<close> has
  stepped over the closing line.
\<close>

definition not_fence_close :: "string \<Rightarrow> bool" where
  "not_fence_close l \<longleftrightarrow> trim l \<noteq> ''```''"

definition codeLines :: "string list \<Rightarrow> string list" where
  "codeLines rest = takeWhile not_fence_close rest"

definition after_fence :: "string list \<Rightarrow> string list" where
  "after_fence rest = drop 1 (dropWhile not_fence_close rest)"

text \<open>
  The body of the \<open>for\<close> loop on a line that is not blank after \<open>trim\<close>: the nodes
  after the step and the lines that the loop still has to read.
\<close>

definition process_line :: "json list \<Rightarrow> string \<Rightarrow> string list \<Rightarrow> error + (json list \<times> string list)" where
  "process_line nodes line rest =
     (case jiraHeading line of
        Some (d, t) \<Rightarrow> Inr (nodes @ [heading_node (parseInt d) (parseInlineContent t)], rest)
      | None \<Rightarrow>
     (case mdHeading line of
        Some (n, t) \<Rightarrow> Inr (nodes @ [heading_node (int n) (parseInlineContent t)], rest)
      | None \<Rightarrow>
     if startsWith line ''* '' \<or> startsWith line ''- '' then
       map_sum id (\<lambda>ns. (ns, rest)) (addBulletItem nodes (parseInlineContent (drop 2 line)))
     else
     (case ordered_marker line of
        Some t \<Rightarrow> map_sum id (\<lambda>ns. (ns, rest)) (addOrderedItem nodes (parseInlineContent t))
      | None \<Rightarrow>
     if startsWith line ''> '' then
       map_sum id (\<lambda>ns. (ns, rest)) (addQuoteLine nodes (drop 2 line))
     else if line = ''----'' \<or> line = ''---'' then
       Inr (nodes @ [rule_node], rest)
     else if line = ''```'' \<or> startsWith line ''```'' then
       Inr (nodes @ [codeBlock_node (join [CHR 0x0A] (codeLines rest)) (fence_lang line)],
            after_fence rest)
     else
       Inr (nodes @ [paragraph_node (parseInlineContent line)], rest))))"

lemma after_fence_length: "length (after_fence rest) \<le> length rest"
  unfolding after_fence_def
  using length_dropWhile_le [of not_fence_close rest] by simp

lemma process_line_rest_cases:
  "(case process_line nodes line rest of
      Inl e \<Rightarrow> True
    | Inr p \<Rightarrow> snd p = rest \<or> snd p = after_fence rest)"
proof -
  have m: "\<And>x. (case map_sum id (\<lambda>ns. (ns, rest)) x of
                   Inl e \<Rightarrow> True
                 | Inr p \<Rightarrow> snd p = rest \<or> snd p = after_fence rest)"
    by (case_tac x) simp_all
  show ?thesis
    unfolding process_line_def
    by (simp only: m split: option.split prod.split if_split) simp
qed

lemma process_line_rest:
  assumes "process_line nodes line rest = Inr (ns, rest')"
  shows "length rest' \<le> length rest"
  using process_line_rest_cases [where nodes = nodes and line = line and rest = rest] assms
    after_fence_length [of rest]
  by auto

text \<open>The \<open>for\<close> loop over the lines: \<open>nodes\<close> so far, and the lines from index \<open>i\<close> on.\<close>

function build_blocks :: "json list \<Rightarrow> string list \<Rightarrow> error + json list" where
  "build_blocks nodes [] = Inr nodes"
| "build_blocks nodes (raw # rest) =
     (if trim raw = [] then build_blocks nodes rest
      else (case process_line nodes (trim raw) rest of
              Inl e \<Rightarrow> Inl e
            | Inr (nodes', rest') \<Rightarrow> build_blocks nodes' rest'))"
  by pat_completeness auto
termination
  by (relation "measure (\<lambda>(n, ls). length ls)") (auto dest: process_line_rest)

definition doc_node :: "json list \<Rightarrow> json" where
  "doc_node nodes =
     JObj [(''type'', JStr ''doc''), (''version'', JNum 1), (''content'', JArr nodes)]"

definition createADFDocument :: "json \<Rightarrow> error + json" where
  "createADFDocument content =
     (case content of
        JStr s \<Rightarrow>
          if s = [] then Inr (doc_node [paragraph_node []])
          else (case build_blocks [] (split_newline s) of
                  Inl e \<Rightarrow> Inl e
                | Inr nodes \<Rightarrow>
                    Inr (doc_node (if nodes = [] then [paragraph_node []] else nodes)))
      | _ \<Rightarrow> Inr (doc_node [paragraph_node []]))"

section \<open>Renderer\<close>

text \<open>
  \<open>xs.map(f)\<close> with a callback that may throw: the first exception ends the call.
\<close>

fun mapE :: "('a \<Rightarrow> error + 'b) \<Rightarrow> 'a list \<Rightarrow> error + 'b list" where
  "mapE f [] = Inr []"
| "mapE f (x # xs) =
     (case f x of
        Inl e \<Rightarrow> Inl e
      | Inr y \<Rightarrow> (case mapE f xs of Inl e \<Rightarrow> Inl e | Inr ys \<Rightarrow> Inr (y # ys)))"

lemma mapE_cong [fundef_cong]:
  "xs = ys \<Longrightarrow> (\<And>x. x \<in> set ys \<Longrightarrow> f x = g x) \<Longrightarrow> mapE f xs = mapE g ys"
  by (induction ys arbitrary: xs) (auto split: sum.splits)

text \<open>
  The string that a template literal, \<open>+\<close> or \<open>join\<close> makes of a value: the value
  itself when it is a string.
\<close>

definition to_string :: "json \<Rightarrow> error + string" where
  "to_string v = (case v of JStr s \<Rightarrow> Inr s | _ \<Rightarrow> Inl Unmodelled)"

text \<open>\<open>`${pre}${text}${post}`\<close>\<close>

definition wrap :: "string \<Rightarrow> json \<Rightarrow> string \<Rightarrow> error + json" where
  "wrap pre text post =
     (case to_string text of Inl e \<Rightarrow> Inl e | Inr s \<Rightarrow> Inr (JStr (pre @ s @ post)))"

text \<open>The \<open>switch (mark.type)\<close> of the inline renderer: the new value of \<open>text\<close>.\<close>

definition apply_mark :: "json \<Rightarrow> json \<Rightarrow> error + json" where
  "apply_mark text mark =
     (case get_prop mark ''type'' of
        Inl e \<Rightarrow> Inl e
      | Inr ty \<Rightarrow>
          if ty = JStr ''strong'' then wrap ''**'' text ''**''
          else if ty = JStr ''em'' then wrap ''*'' text ''*''
          else if ty = JStr ''strike'' then wrap ''~~'' text ''~~''
          else if ty = JStr ''code'' then wrap ''`'' text ''`''
          else if ty = JStr ''link'' then
            (case to_string (or_else (opt_prop (opt_prop mark ''attrs'') ''href'') (JStr [])) of
               Inl e \<Rightarrow> Inl e
             | Inr href \<Rightarrow> wrap ''['' text ('']('' @ href @ '')''))
          else Inr text)"

text \<open>\<open>for (const mark of marks)\<close> over an array.\<close>

fun apply_marks :: "json \<Rightarrow> json list \<Rightarrow> error + json" where
  "apply_marks text [] = Inr text"
| "apply_marks text (m # ms) =
     (case apply_mark text m of Inl e \<Rightarrow> Inl e | Inr t \<Rightarrow> apply_marks t ms)"

text \<open>
  The callback of \<open>nodes.map\<close> in \<open>inlineNodesToText\<close>. Reading \<open>node.type\<close> throws on
  \<open>null\<close> and \<open>undefined\<close>; after it the other reads of \<open>node\<close> cannot throw. A truthy
  \<open>marks\<close> is iterated: an array gives its elements, a string gives its characters
  (which have no \<open>type\<close>, so \<open>text\<close> stays), any other value is not iterable.
\<close>

definition inline_node_text :: "json \<Rightarrow> error + json" where
  "inline_node_text node =
     (case get_prop node ''type'' of
        Inl e \<Rightarrow> Inl e
      | Inr ty \<Rightarrow>
          if ty = JStr ''text'' then
            (let text = or_else (opt_prop node ''text'') (JStr []);
                 marks = opt_prop node ''marks''
             in if truthy marks then
                  (case marks of
                     JArr ms \<Rightarrow> apply_marks text ms
                   | JStr s \<Rightarrow> Inr text
                   | _ \<Rightarrow> Inl TypeError)
                else Inr text)
          else if ty = JStr ''hardBreak'' then Inr (JStr [CHR 0x0A])
          else if ty = JStr ''mention'' then
            wrap ''@''
              (or_else (opt_prop (opt_prop node ''attrs'') ''text'')
                 (or_else (opt_prop (opt_prop node ''attrs'') ''id'') (JStr []))) []
          else if ty = JStr ''inlineCard'' then
            Inr (or_else (opt_prop (opt_prop node ''attrs'') ''url'') (JStr []))
          else if ty = JStr ''emoji'' then
            Inr (or_else (opt_prop (opt_prop node ''attrs'') ''shortName'') (JStr []))
          else Inr (JStr []))"

definition inlineNodesToText :: "json \<Rightarrow> error + string" where
  "inlineNodesToText nodes =
     (case nodes of
        JArr ns \<Rightarrow>
          (case mapE inline_node_text ns of
             Inl e \<Rightarrow> Inl e
           | Inr vs \<Rightarrow>
               (case mapE to_string vs of
                  Inl e \<Rightarrow> Inl e
                | Inr ss \<Rightarrow> Inr (join [] ss)))
      | _ \<Rightarrow> Inr [])"

text \<open>
  \<open>(v || []).map\<close>: the array that is mapped; a truthy value that is not an array
  has no \<open>map\<close>.
\<close>

definition array_or_empty :: "json \<Rightarrow> error + json list" where
  "array_or_empty v =
     (if \<not> truthy v then Inr []
      else (case v of JArr xs \<Rightarrow> Inr xs | _ \<Rightarrow> Inl TypeError))"

text \<open>\<open>(x.content || [])\<close> as the receiver of \<open>map\<close>.\<close>

definition content_of :: "json \<Rightarrow> error + json list" where
  "content_of x =
     (case get_prop x ''content'' of Inl e \<Rightarrow> Inl e | Inr c \<Rightarrow> array_or_empty c)"

text \<open>\<open>'#'.repeat(level)\<close>\<close>

definition repeat_hash :: "json \<Rightarrow> error + string" where
  "repeat_hash level =
     (case level of
        JNum n \<Rightarrow> if n < 0 then Inl RangeError else Inr (replicate (nat n) (CHR ''#''))
      | _ \<Rightarrow> Inl Unmodelled)"

text \<open>The decimal form of \<open>i + 1\<close> in the ordered list.\<close>

fun decimal :: "nat \<Rightarrow> string" where
  "decimal n =
     (if n < 10 then [''0123456789'' ! n]
      else decimal (n div 10) @ [''0123456789'' ! (n mod 10)])"

declare decimal.simps [simp del]

definition bindE :: "error + 'a \<Rightarrow> ('a \<Rightarrow> error + 'b) \<Rightarrow> error + 'b" where
  "bindE m f = (case m of Inl e \<Rightarrow> Inl e | Inr x \<Rightarrow> f x)"

lemma bindE_cong [fundef_cong]:
  "m = m' \<Longrightarrow> (\<And>x. m' = Inr x \<Longrightarrow> f x = g x) \<Longrightarrow> bindE m f = bindE m' g"
  by (auto simp: bindE_def split: sum.splits)

lemma bindE_simps [simp]: "bindE (Inl e) f = Inl e" "bindE (Inr x) f = f x"
  by (simp_all add: bindE_def)

lemma size_map_of: "map_of kv k = Some v \<Longrightarrow> size v < size (JObj kv)"
  by (induction kv) (auto split: if_splits)

lemma size_member: "x \<in> set xs \<Longrightarrow> size x < size (JArr xs)"
  by (induction xs) auto

lemma content_of_smaller:
  assumes "content_of node = Inr xs" and "x \<in> set xs"
  shows "size x < size node"
proof (cases node)
  case (JObj kv)
  show ?thesis
  proof (cases "map_of kv ''content''")
    case None
    with JObj assms show ?thesis
      by (simp add: content_of_def array_or_empty_def)
  next
    case (Some c)
    with JObj assms have "c = JArr xs"
      by (cases c) (auto simp: content_of_def array_or_empty_def split: if_splits)
    with Some JObj assms(2) show ?thesis
      using size_map_of [of kv "''content''" c] size_member [of x xs] by simp
  qed
qed (use assms in \<open>auto simp: content_of_def array_or_empty_def\<close>)

function blockNodeToText :: "json \<Rightarrow> error + string" where
  "blockNodeToText node =
     (if \<not> truthy node then Inr []
      else
        bindE (get_prop node ''type'') (\<lambda>ty.
          if ty = JStr ''paragraph'' then inlineNodesToText (opt_prop node ''content'')
          else if ty = JStr ''heading'' then
            bindE (repeat_hash (or_else (opt_prop (opt_prop node ''attrs'') ''level'') (JNum 1)))
              (\<lambda>hs. bindE (inlineNodesToText (opt_prop node ''content''))
                (\<lambda>t. Inr (hs @ '' '' @ t)))
          else if ty = JStr ''bulletList'' then
            bindE (content_of node) (\<lambda>items.
              bindE (mapE (\<lambda>item.
                       bindE (content_of item) (\<lambda>cs.
                         bindE (mapE blockNodeToText cs)
                           (\<lambda>ts. Inr (''- '' @ join [CHR 0x0A] ts)))) items)
                (\<lambda>ls. Inr (join [CHR 0x0A] ls)))
          else if ty = JStr ''orderedList'' then
            bindE (content_of node) (\<lambda>items.
              bindE (mapE (\<lambda>(i, item).
                       bindE (content_of item) (\<lambda>cs.
                         bindE (mapE blockNodeToText cs)
                           (\<lambda>ts. Inr (decimal (i + 1) @ ''. '' @ join [CHR 0x0A] ts))))
                     (enumerate 0 items))
                (\<lambda>ls. Inr (join [CHR 0x0A] ls)))
          else if ty = JStr ''blockquote'' then
            bindE (content_of node) (\<lambda>cs.
              bindE (mapE (\<lambda>c. bindE (blockNodeToText c) (\<lambda>t. Inr (''> '' @ t))) cs)
                (\<lambda>ls. Inr (join [CHR 0x0A] ls)))
          else if ty = JStr ''codeBlock'' then
            bindE (inlineNodesToText (opt_prop node ''content'')) (\<lambda>code.
              bindE (to_string (or_else (opt_prop (opt_prop node ''attrs'') ''language'') (JStr [])))
                (\<lambda>lang. Inr (''```'' @ lang @ [CHR 0x0A] @ code @ [CHR 0x0A] @ ''```'')))
          else if ty = JStr ''rule'' then Inr ''---''
          else if ty = JStr ''table'' then
            bindE (content_of node) (\<lambda>rows.
              bindE (mapE (\<lambda>row.
                       bindE (content_of row) (\<lambda>cells.
                         bindE (mapE (\<lambda>cell.
                                  bindE (content_of cell) (\<lambda>cs.
                                    bindE (mapE blockNodeToText cs)
                                      (\<lambda>ts. Inr (join '' '' ts)))) cells)
                           (\<lambda>cols. Inr (''| '' @ join '' | '' cols @ '' |'')))) rows)
                (\<lambda>ls. Inr (join [CHR 0x0A] ls)))
          else if ty = JStr ''mediaSingle'' \<or> ty = JStr ''mediaGroup'' then Inr ''[media]''
          else inlineNodesToText (opt_prop node ''content'')))"
  by pat_completeness auto
termination
proof (relation "measure size", goal_cases)
  case 1
  show ?case by simp
next
  case (2 node ty items item cs c)
  then show ?case
    using content_of_smaller [of node items item] content_of_smaller [of item cs c] by simp
next
  case (3 node ty items p i item cs c)
  then have "item \<in> set items"
    by (auto simp: in_set_enumerate_eq)
  with 3 show ?case
    using content_of_smaller [of node items item] content_of_smaller [of item cs c] by simp
next
  case (4 node ty cs c)
  then show ?case
    using content_of_smaller [of node cs c] by simp
next
  case (5 node ty rows row cells cell cs c)
  then show ?case
    using content_of_smaller [of node rows row] content_of_smaller [of row cells cell]
      content_of_smaller [of cell cs c] by simp
qed

declare blockNodeToText.simps [simp del]

definition adfToText :: "json \<Rightarrow> error + string" where
  "adfToText doc =
     (if \<not> truthy doc \<or> get_prop doc ''type'' \<noteq> Inr (JStr ''doc'')
         \<or> (case opt_prop doc ''content'' of JArr xs \<Rightarrow> False | _ \<Rightarrow> True)
      then Inr (case doc of JStr s \<Rightarrow> s | _ \<Rightarrow> [])
      else
        (case opt_prop doc ''content'' of
           JArr nodes \<Rightarrow>
             bindE (mapE blockNodeToText nodes) (\<lambda>ts. Inr (join [CHR 0x0A, CHR 0x0A] ts))
         | _ \<Rightarrow> Inr []))"

section \<open>The older copy of the block builder\<close>

text \<open>
  \<open>src/index.js\<close> holds an older \<open>createADFDocument\<close>, with its own line patterns and
  without the inline tokenizer.
\<close>

text \<open>
  \<open>s.substring(a, b)\<close>: the two indices are swapped when the first is the larger,
  and an index past the end counts as the length.
\<close>

definition substring :: "nat \<Rightarrow> nat \<Rightarrow> string \<Rightarrow> string" where
  "substring a b s = take (max a b - min a b) (drop (min a b) s)"

text \<open>
  \<^verbatim>\<open>line.match(/- \[([^\]]+)\|([^\]]+)\] (.+)/)\<close>: one attempt at the start of a
  string, and the search for the first position where an attempt succeeds. The
  result holds the three groups.
\<close>

definition legacy_link_at :: "string \<Rightarrow> (string \<times> string \<times> string) option" where
  "legacy_link_at s =
     (case delimited ''- ['' (CHR '']'') ''] '' s of
        Some (run, r) \<Rightarrow>
          (case pipe_split run of
             Some (t, h) \<Rightarrow>
               (case dot_plus r of Some g \<Rightarrow> Some (t, h, g) | None \<Rightarrow> None)
           | None \<Rightarrow> None)
      | None \<Rightarrow> None)"

fun legacy_link_match :: "string \<Rightarrow> (string \<times> string \<times> string) option" where
  "legacy_link_match [] = None"
| "legacy_link_match (c # cs) =
     (case legacy_link_at (c # cs) of
        Some m \<Rightarrow> Some m
      | None \<Rightarrow> legacy_link_match cs)"

text \<open>
  The loop over \<^verbatim>\<open>/\*([^*]+)\*/g\<close> of the branch for lines that hold \<open>*\<close> and \<open>:\<close>.
\<close>

function legacy_strong_spans :: "string \<Rightarrow> string \<Rightarrow> json list" where
  "legacy_strong_spans pending [] = (if pending = [] then [] else [text_node pending])"
| "legacy_strong_spans pending (c # cs) =
     (case delimited ''*'' (CHR ''*'') ''*'' (c # cs) of
        Some (t, rest) \<Rightarrow>
          (if pending = [] then [] else [text_node pending])
          @ marked_node t (simple_mark ''strong'') # legacy_strong_spans [] rest
      | None \<Rightarrow> legacy_strong_spans (pending @ [c]) cs)"
  by pat_completeness auto
termination
  by (relation "measure (\<lambda>(p, s). length s)") (auto dest: delimited_shorter)

text \<open>
  The body of the \<open>for\<close> loop on a line that is not blank after \<open>trim\<close>. The link
  branch pushes nothing when its expression does not match. The code block always
  gets a \<open>content\<close>, and no language.
\<close>

definition legacy_line :: "json list \<Rightarrow> string \<Rightarrow> string list \<Rightarrow> json list \<times> string list" where
  "legacy_line nodes line rest =
     (if startsWith line ''h1. '' then (nodes @ [heading_node 1 [text_node (drop 4 line)]], rest)
      else if startsWith line ''h2. '' then (nodes @ [heading_node 2 [text_node (drop 4 line)]], rest)
      else if startsWith line ''h3. '' then (nodes @ [heading_node 3 [text_node (drop 4 line)]], rest)
      else if startsWith line ''- ['' \<and> CHR ''|'' \<in> set line then
        (case legacy_link_match line of
           Some (t, h, g) \<Rightarrow>
             (nodes @ [list_node ''bulletList''
                         [listItem_node [marked_node t (link_mark h), text_node ('' '' @ g)]]],
              rest)
         | None \<Rightarrow> (nodes, rest))
      else if startsWith line ''* '' then
        (nodes @ [list_node ''bulletList'' [listItem_node [text_node (drop 2 line)]]], rest)
      else if line = ''----'' then (nodes @ [rule_node], rest)
      else if line = ''```'' \<or> startsWith line ''```'' then
        (nodes @ [JObj [(''type'', JStr ''codeBlock''),
                        (''content'', JArr [text_node (join [CHR 0x0A] (codeLines rest))])]],
         after_fence rest)
      else if CHR ''*'' \<in> set line \<and> CHR '':'' \<in> set line then
        (nodes @ [paragraph_node (legacy_strong_spans [] line)], rest)
      else if startsWith line ''*'' \<and> last line = CHR ''*'' then
        (nodes @ [paragraph_node
                    [marked_node (substring 1 (length line - 1) line) (simple_mark ''strong'')]],
         rest)
      else (nodes @ [paragraph_node [text_node line]], rest))"

lemma legacy_line_rest: "length (snd (legacy_line nodes line rest)) \<le> length rest"
proof -
  have "snd (legacy_line nodes line rest) = rest \<or> snd (legacy_line nodes line rest) = after_fence rest"
    unfolding legacy_line_def by (simp split: option.split prod.split)
  then show ?thesis
    using after_fence_length [of rest] by auto
qed

text \<open>
  The \<open>for\<close> loop over the lines.
\<close>

function legacy_blocks :: "json list \<Rightarrow> string list \<Rightarrow> json list" where
  "legacy_blocks nodes [] = nodes"
| "legacy_blocks nodes (raw # rest) =
     (if trim raw = [] then legacy_blocks nodes rest
      else (case legacy_line nodes (trim raw) rest of
              (nodes', rest') \<Rightarrow> legacy_blocks nodes' rest'))"
  by pat_completeness auto
termination
  by (relation "measure (\<lambda>(n, ls). length ls)")
    (simp_all add: case_prod_beta le_imp_less_Suc legacy_line_rest)

text \<open>
  The function reads \<open>content.split\<close> without a guard: a value that is not a string
  throws. It returns the nodes as they are, also when there are none.
\<close>

definition legacy_createADFDocument :: "json \<Rightarrow> error + json" where
  "legacy_createADFDocument content =
     (case content of
        JStr s \<Rightarrow> Inr (doc_node (legacy_blocks [] (split_newline s)))
      | _ \<Rightarrow> Inl TypeError)"

section \<open>Vocabulary of the properties\<close>

text \<open>
  The five marks of the document format, the object that carries each on the wire,
  and the delimiters that the inline renderer puts around a text for it.
\<close>

datatype mark_kind = Strong | Em | Strike | Code | Link string

fun mark_object :: "mark_kind \<Rightarrow> json" where
  "mark_object Strong = simple_mark ''strong''"
| "mark_object Em = simple_mark ''em''"
| "mark_object Strike = simple_mark ''strike''"
| "mark_object Code = simple_mark ''code''"
| "mark_object (Link href) = link_mark href"

fun delimit :: "string \<Rightarrow> mark_kind \<Rightarrow> string" where
  "delimit t Strong = ''**'' @ t @ ''**''"
| "delimit t Em = ''*'' @ t @ ''*''"
| "delimit t Strike = ''~~'' @ t @ ''~~''"
| "delimit t Code = ''`'' @ t @ ''`''"
| "delimit t (Link href) = ''['' @ t @ '']('' @ href @ '')''"

text \<open>A text run with an array of marks, as a tree from outside may hold it.\<close>

definition text_run :: "string \<Rightarrow> json list \<Rightarrow> json" where
  "text_run t ms = JObj [(''type'', JStr ''text''), (''text'', JStr t), (''marks'', JArr ms)]"

text \<open>The number of marks that an inline node carries.\<close>

definition mark_count :: "json \<Rightarrow> nat" where
  "mark_count n = (case opt_prop n ''marks'' of JArr ms \<Rightarrow> length ms | _ \<Rightarrow> 0)"

text \<open>A node that the tokenizer pushes for a match: a non-empty text with one mark.\<close>

definition span_node :: "json \<Rightarrow> bool" where
  "span_node n \<longleftrightarrow> (\<exists>t k. n = marked_node t (mark_object k) \<and> t \<noteq> [])"

text \<open>The values that the render entry point tells apart.\<close>

definition is_string :: "json \<Rightarrow> bool" where
  "is_string v = (case v of JStr s \<Rightarrow> True | _ \<Rightarrow> False)"

definition is_document :: "json \<Rightarrow> bool" where
  "is_document v =
     (case v of
        JObj kv \<Rightarrow>
          map_of kv ''type'' = Some (JStr ''doc'')
          \<and> (case map_of kv ''content'' of Some (JArr xs) \<Rightarrow> True | _ \<Rightarrow> False)
      | _ \<Rightarrow> False)"

text \<open>The document with a single empty paragraph.\<close>

definition empty_document :: json where
  "empty_document = doc_node [paragraph_node []]"

text \<open>
  The lines of plain text: a line without a line feed that \<open>trim\<close> leaves as it is,
  that falls through every marker test of the loop body, and that holds none of the
  characters with which an inline span begins.
\<close>

definition inline_delimiter :: "char \<Rightarrow> bool" where
  "inline_delimiter c \<longleftrightarrow> c \<in> set ''*~[`''"

definition paragraph_line :: "string \<Rightarrow> bool" where
  "paragraph_line line \<longleftrightarrow>
     jiraHeading line = None \<and> mdHeading line = None
     \<and> \<not> startsWith line ''* '' \<and> \<not> startsWith line ''- ''
     \<and> ordered_marker line = None \<and> \<not> startsWith line ''> ''
     \<and> line \<noteq> ''----'' \<and> line \<noteq> ''---'' \<and> \<not> startsWith line ''```''"

definition plain_line :: "string \<Rightarrow> bool" where
  "plain_line s \<longleftrightarrow>
     s \<noteq> [] \<and> CHR 0x0A \<notin> set s \<and> trim s = s \<and> paragraph_line s
     \<and> (\<forall>c \<in> set s. \<not> inline_delimiter c)"

text \<open>
  The well-formed documents of the data model: the root has type \<open>doc\<close>, version 1 and
  at least one block; a block is a paragraph or a heading (level 1 to 6) of inline
  nodes, a bullet or ordered list of at least one item, each holding exactly one
  paragraph, a quote of at least one paragraph, a code block with an optional non-empty
  unmarked text and an optional language, or a rule; an inline node is a non-empty
  text with an optional array of marks.
\<close>

definition has_type :: "json \<Rightarrow> string \<Rightarrow> bool" where
  "has_type v ty \<longleftrightarrow> opt_prop v ''type'' = JStr ty"

definition array_all :: "(json \<Rightarrow> bool) \<Rightarrow> json \<Rightarrow> bool" where
  "array_all P v = (case v of JArr xs \<Rightarrow> list_all P xs | _ \<Rightarrow> False)"

definition array_nonempty :: "json \<Rightarrow> bool" where
  "array_nonempty v = (case v of JArr xs \<Rightarrow> xs \<noteq> [] | _ \<Rightarrow> False)"

definition nonempty_string :: "json \<Rightarrow> bool" where
  "nonempty_string v = (case v of JStr s \<Rightarrow> s \<noteq> [] | _ \<Rightarrow> False)"

definition wf_mark :: "json \<Rightarrow> bool" where
  "wf_mark m \<longleftrightarrow>
     has_type m ''strong'' \<or> has_type m ''em'' \<or> has_type m ''strike'' \<or> has_type m ''code''
     \<or> (has_type m ''link'' \<and> is_string (opt_prop (opt_prop m ''attrs'') ''href''))"

definition wf_inline :: "json \<Rightarrow> bool" where
  "wf_inline n \<longleftrightarrow>
     has_type n ''text'' \<and> nonempty_string (opt_prop n ''text'')
     \<and> (opt_prop n ''marks'' = JUndefined \<or> array_all wf_mark (opt_prop n ''marks''))"

definition wf_paragraph :: "json \<Rightarrow> bool" where
  "wf_paragraph p \<longleftrightarrow> has_type p ''paragraph'' \<and> array_all wf_inline (opt_prop p ''content'')"

definition wf_heading :: "json \<Rightarrow> bool" where
  "wf_heading h \<longleftrightarrow>
     has_type h ''heading''
     \<and> (case opt_prop (opt_prop h ''attrs'') ''level'' of JNum l \<Rightarrow> 1 \<le> l \<and> l \<le> 6 | _ \<Rightarrow> False)
     \<and> array_all wf_inline (opt_prop h ''content'')"

definition wf_listItem :: "json \<Rightarrow> bool" where
  "wf_listItem i \<longleftrightarrow>
     has_type i ''listItem''
     \<and> (case opt_prop i ''content'' of JArr [p] \<Rightarrow> wf_paragraph p | _ \<Rightarrow> False)"

definition wf_list :: "string \<Rightarrow> json \<Rightarrow> bool" where
  "wf_list kind l \<longleftrightarrow>
     has_type l kind \<and> array_nonempty (opt_prop l ''content'')
     \<and> array_all wf_listItem (opt_prop l ''content'')"

definition wf_blockquote :: "json \<Rightarrow> bool" where
  "wf_blockquote q \<longleftrightarrow>
     has_type q ''blockquote'' \<and> array_nonempty (opt_prop q ''content'')
     \<and> array_all wf_paragraph (opt_prop q ''content'')"

definition wf_codeBlock :: "json \<Rightarrow> bool" where
  "wf_codeBlock c \<longleftrightarrow>
     has_type c ''codeBlock''
     \<and> (opt_prop c ''content'' = JUndefined
          \<or> (case opt_prop c ''content'' of
                JArr [t] \<Rightarrow> wf_inline t \<and> opt_prop t ''marks'' = JUndefined
              | _ \<Rightarrow> False))
     \<and> (opt_prop c ''attrs'' = JUndefined
          \<or> nonempty_string (opt_prop (opt_prop c ''attrs'') ''language''))"

definition wf_block :: "json \<Rightarrow> bool" where
  "wf_block b \<longleftrightarrow>
     wf_paragraph b \<or> wf_heading b \<or> wf_list ''bulletList'' b \<or> wf_list ''orderedList'' b
     \<or> wf_blockquote b \<or> wf_codeBlock b \<or> has_type b ''rule''"

definition wf_document :: "json \<Rightarrow> bool" where
  "wf_document d \<longleftrightarrow>
     has_type d ''doc'' \<and> opt_prop d ''version'' = JNum 1
     \<and> array_nonempty (opt_prop d ''content'') \<and> array_all wf_block (opt_prop d ''content'')"

text \<open>No attempt of the inline regular expression succeeds at any position of the text.\<close>

fun no_span :: "string \<Rightarrow> bool" where
  "no_span [] = True"
| "no_span (c # cs) = (match_at (c # cs) = None \<and> no_span cs)"

text \<open>The outcome of a step or of the loop: nodes that are all well formed, and at least one.\<close>

definition good_nodes :: "json list \<Rightarrow> bool" where
  "good_nodes ns \<longleftrightarrow> ns \<noteq> [] \<and> list_all wf_block ns"

definition good_step :: "error + (json list \<times> string list) \<Rightarrow> bool" where
  "good_step r = (case r of Inl e \<Rightarrow> False | Inr p \<Rightarrow> good_nodes (fst p))"




















text \<open>The lines of an input that are not blank, trimmed.\<close>

definition plain_lines :: "string list \<Rightarrow> string list" where
  "plain_lines ls = filter (\<lambda>l. l \<noteq> []) (map trim ls)"

text \<open>The paragraph of one plain run.\<close>

definition plain_paragraph :: "string \<Rightarrow> json" where
  "plain_paragraph l = paragraph_node [text_node l]"

section \<open>Inline rendering of marked runs\<close>

lemma apply_mark_object: "apply_mark (JStr t) (mark_object k) = Inr (JStr (delimit t k))"
  by (cases k)
    (simp_all add: apply_mark_def simple_mark_def link_mark_def wrap_def to_string_def
      or_else_def)

lemma apply_marks_objects:
  "apply_marks (JStr t) (map mark_object ks) = Inr (JStr (foldl delimit t ks))"
  by (induction ks arbitrary: t) (simp_all add: apply_mark_object)

lemma inline_text_run:
  "inline_node_text (text_run t (map mark_object ks)) = Inr (JStr (foldl delimit t ks))"
  by (simp add: inline_node_text_def text_run_def or_else_def apply_marks_objects Let_def)

lemma render_text_run:
  "inlineNodesToText (JArr [text_run t (map mark_object ks)]) = Inr (foldl delimit t ks)"
  by (simp add: inlineNodesToText_def inline_text_run to_string_def)

text \<open>
  C1, as the source has it. The inline renderer wraps a run in the delimiters of its
  marks in the order in which the marks stand in the run's \<open>marks\<close> array, the first
  mark innermost: there is no fixed order of the kinds. A run whose marks are strong,
  then link renders as \<open>[**text**](href)\<close>; one whose marks are link, then strong
  renders as \<open>**[text](href)**\<close>.
\<close>

theorem marks_applied_in_array_order:
  "inlineNodesToText (JArr [text_run t (map mark_object ks)]) = Inr (foldl delimit t ks)
   \<and> inlineNodesToText (JArr [text_run t [simple_mark ''strong'', link_mark href]])
       = Inr (''[**'' @ t @ ''**]('' @ href @ '')'')
   \<and> inlineNodesToText (JArr [text_run t [link_mark href, simple_mark ''strong'']])
       = Inr (''**['' @ t @ '']('' @ href @ '')**'')"
  using render_text_run [of t ks] render_text_run [of t "[Strong, Link href]"]
    render_text_run [of t "[Link href, Strong]"]
  by simp

text \<open>
  C1 as stated fails: the run \<open>text\<close> marked link, then strong is marked both strong
  and link, and renders as \<open>**[text](href)**\<close>, not as \<open>[**text**](href)\<close>.
\<close>

theorem strong_link_counterexample:
  "inlineNodesToText (JArr [text_run ''text'' [link_mark ''href'', simple_mark ''strong'']])
     = Inr ''**[text](href)**''
   \<and> inlineNodesToText (JArr [text_run ''text'' [link_mark ''href'', simple_mark ''strong'']])
     \<noteq> Inr ''[**text**](href)''"
  using render_text_run [of "''text''" "[Link ''href'', Strong]"] by simp

section \<open>What the tokenizer emits\<close>

lemma delimited_group: "delimited opn stop cls s = Some (b, r) \<Longrightarrow> b \<noteq> []"
  by (auto simp: delimited_def Let_def split: if_splits)

lemma pipe_split_group:
  assumes "pipe_split run = Some (t, h)"
  shows "t \<noteq> []"
proof (cases run)
  case Nil
  with assms show ?thesis by simp
next
  case (Cons c cs)
  show ?thesis
  proof (cases "pipe_split cs")
    case (Some ab)
    with Cons assms show ?thesis by (auto split: prod.splits)
  next
    case None
    with Cons assms
    have "(case cs of [] \<Rightarrow> None
           | d # b \<Rightarrow> if d = CHR ''|'' \<and> b \<noteq> [] then Some ([c], b) else None) = Some (t, h)"
      by simp
    then show ?thesis
      by (cases cs) (auto split: if_splits)
  qed
qed

lemma link_paren_group: "link_paren s = Some ((t, h), r) \<Longrightarrow> t \<noteq> []"
  by (auto simp: link_paren_def split: option.splits dest: delimited_group)

lemma link_pipe_group: "link_pipe s = Some ((t, h), r) \<Longrightarrow> t \<noteq> []"
  by (auto simp: link_pipe_def split: option.splits dest: pipe_split_group)

lemma span_nodeI: "t \<noteq> [] \<Longrightarrow> span_node (marked_node t (mark_object k))"
  unfolding span_node_def by blast

lemma match_at_node:
  assumes "match_at s = Some (n, r)"
  shows "span_node n"
  using assms unfolding match_at_def
  by (auto split: option.splits
      intro: span_nodeI [of _ Strong, simplified] span_nodeI [of _ Strike, simplified]
        span_nodeI [of _ Em, simplified] span_nodeI [of _ Code, simplified]
        span_nodeI [of _ "Link h" for h, simplified]
      dest: delimited_group link_paren_group link_pipe_group)

lemma mark_count_nodes [simp]:
  "mark_count (text_node t) = 0" "mark_count (marked_node t m) = 1"
  by (simp_all add: mark_count_def text_node_def marked_node_def)

lemma scan_spans_marks: "n \<in> set (scan_spans p s) \<Longrightarrow> mark_count n \<le> 1"
proof (induction p s rule: scan_spans.induct)
  case (1 pending)
  then show ?case by (simp split: if_splits)
next
  case (2 pending c cs)
  show ?case
  proof (cases "match_at (c # cs)")
    case None
    with 2 show ?thesis by simp
  next
    case (Some m)
    obtain node rest where m: "m = (node, rest)" by (cases m)
    from match_at_node [of "c # cs" node rest] Some m
    have node: "mark_count node \<le> 1" by (auto simp: span_node_def)
    have ih: "n \<in> set (scan_spans [] rest) \<Longrightarrow> mark_count n \<le> 1"
      using "2.IH"(2) [OF Some m [symmetric]] by simp
    from "2.prems" Some m
    have "n = text_node pending \<or> n = node \<or> n \<in> set (scan_spans [] rest)"
      by (auto split: if_splits)
    then show ?thesis
      using node ih by auto
  qed
qed

text \<open>
  C9. For every input line, every inline node that the tokenizer emits carries at most
  one mark.
\<close>

theorem tokenizer_single_mark:
  "\<forall>n \<in> set (parseInlineContent line). mark_count n \<le> 1"
  by (auto simp: parseInlineContent_def Let_def dest: scan_spans_marks)

lemma tokens_a_strong_b:
  "parseInlineContent ''a**b**'' = [text_node ''a'', marked_node ''b'' (simple_mark ''strong'')]"
  by code_simp

theorem tokenizer_single_mark_witness:
  "marked_node ''b'' (simple_mark ''strong'') \<in> set (parseInlineContent ''a**b**'')
   \<and> mark_count (marked_node ''b'' (simple_mark ''strong'')) \<le> 1"
  using tokenizer_single_mark [of "''a**b**''"] by (simp add: tokens_a_strong_b)

section \<open>The render entry point on values that are not documents\<close>

lemma adfToText_string: "adfToText (JStr s) = Inr s"
  by (simp add: adfToText_def)

lemma adfToText_other:
  assumes "\<not> is_document v" and "\<not> is_string v"
  shows "adfToText v = Inr []"
proof (cases v)
  case (JObj kv)
  with assms(1) show ?thesis
    by (auto simp: adfToText_def is_document_def split: option.splits json.splits)
qed (use assms in \<open>simp_all add: adfToText_def is_string_def\<close>)

text \<open>
  C10. \<open>adfToText\<close> returns a string unchanged, and renders every other value that is
  not a document (an object of type \<open>doc\<close> with an array as \<open>content\<close>) as the empty
  string.
\<close>

theorem adfToText_passes_strings:
  "adfToText (JStr s) = Inr s
   \<and> (\<not> is_document v \<and> \<not> is_string v \<longrightarrow> adfToText v = Inr [])"
  using adfToText_string adfToText_other by blast

theorem adfToText_passes_strings_witness:
  "adfToText (JStr ''# not parsed'') = Inr ''# not parsed''
   \<and> adfToText JNull = Inr []
   \<and> adfToText (JNum 5) = Inr []
   \<and> adfToText (JObj [(''type'', JStr ''paragraph''), (''content'', JArr [])]) = Inr []
   \<and> adfToText (JObj [(''type'', JStr ''doc'')]) = Inr []
   \<and> adfToText (JObj [(''type'', JStr ''doc''), (''content'', JStr ''x'')]) = Inr []"
  using adfToText_passes_strings [of "''# not parsed''" JNull]
    adfToText_passes_strings [of "[]" "JNum 5"]
    adfToText_passes_strings [of "[]" "JObj [(''type'', JStr ''paragraph''), (''content'', JArr [])]"]
    adfToText_passes_strings [of "[]" "JObj [(''type'', JStr ''doc'')]"]
    adfToText_passes_strings [of "[]" "JObj [(''type'', JStr ''doc''), (''content'', JStr ''x'')]"]
  by (simp add: is_document_def is_string_def)

section \<open>Blank input\<close>

lemma trim_blank: "\<forall>c \<in> set s. isSpace c \<Longrightarrow> trim s = []"
proof -
  assume "\<forall>c \<in> set s. isSpace c"
  then have d: "dropWhile isSpace s = []" by (induction s) auto
  show ?thesis unfolding trim_def d by simp
qed

lemma split_newline_nonempty: "split_newline s \<noteq> []"
  by (induction s) auto

lemma split_newline_chars: "l \<in> set (split_newline s) \<Longrightarrow> set l \<subseteq> set s"
proof (induction s arbitrary: l)
  case Nil
  then show ?case by simp
next
  case (Cons c cs)
  obtain h t where ht: "split_newline cs = h # t"
    using split_newline_nonempty [of cs] by (cases "split_newline cs") auto
  from Cons.IH [of h] ht have h: "set h \<subseteq> set cs" by simp
  from Cons.IH ht have t: "\<And>x. x \<in> set t \<Longrightarrow> set x \<subseteq> set cs" by simp
  from Cons.prems ht show ?case
    using h t by (auto split: if_splits)
qed

lemma build_blocks_blank:
  "\<forall>l \<in> set ls. trim l = [] \<Longrightarrow> build_blocks nodes ls = Inr nodes"
  by (induction ls) auto

text \<open>
  C7. The empty string, \<open>null\<close> and every string of white space only give the
  document whose content is exactly one paragraph with empty inline content.
\<close>

theorem blank_input_empty_paragraph:
  "createADFDocument (JStr []) = Inr empty_document
   \<and> createADFDocument JNull = Inr empty_document
   \<and> ((\<forall>c \<in> set s. isSpace c) \<longrightarrow> createADFDocument (JStr s) = Inr empty_document)"
proof -
  have "createADFDocument (JStr s) = Inr empty_document" if a: "\<forall>c \<in> set s. isSpace c"
  proof -
    from a have "\<forall>l \<in> set (split_newline s). trim l = []"
      using split_newline_chars trim_blank by blast
    then have "build_blocks [] (split_newline s) = Inr []"
      by (rule build_blocks_blank)
    then show ?thesis
      by (simp add: createADFDocument_def empty_document_def)
  qed
  then show ?thesis
    by (simp add: createADFDocument_def empty_document_def)
qed

theorem blank_input_empty_paragraph_witness:
  "isSpace (CHR '' '') \<and> isSpace (CHR 0x0A) \<and> isSpace (CHR 0x09)
   \<and> createADFDocument (JStr [CHR '' '', CHR 0x0A, CHR 0x09, CHR '' '']) = Inr empty_document
   \<and> createADFDocument JNull = Inr empty_document"
  using blank_input_empty_paragraph [of "[CHR '' '', CHR 0x0A, CHR 0x09, CHR '' '']"]
  by (simp add: isSpace_def)

section \<open>The renderer on malformed trees\<close>

text \<open>
  C3 at one input. A paragraph whose \<open>content\<close> is the string \<open>x\<close> renders as the
  empty string, since \<open>inlineNodesToText\<close> tests \<open>Array.isArray\<close>. A bullet list with
  the same \<open>content\<close> throws: \<open>(node.content || [])\<close> keeps the string, which has no
  \<open>map\<close>. An inline content array that holds \<open>null\<close> throws too, on \<open>node.type\<close>.
\<close>

theorem render_throws_on_malformed_list_content:
  "blockNodeToText (JObj [(''type'', JStr ''bulletList''), (''content'', JStr ''x'')])
     = Inl TypeError
   \<and> blockNodeToText (JObj [(''type'', JStr ''paragraph''), (''content'', JStr ''x'')]) = Inr []
   \<and> inlineNodesToText (JArr [JNull]) = Inl TypeError"
  by (simp add: blockNodeToText.simps content_of_def array_or_empty_def inlineNodesToText_def
      inline_node_text_def)

section \<open>List runs\<close>

lemma last_is_list_node [simp]: "last_is (ns @ [list_node kind items]) kind' \<longleftrightarrow> kind = kind'"
  by (simp add: last_is_def list_node_def)

lemma push_to_last_list_node:
  "push_to_last (ns @ [list_node kind items]) x = Inr (ns @ [list_node kind (items @ [x])])"
  by (simp add: push_to_last_def push_content_def list_node_def)

lemma addBulletItem_merge:
  "addBulletItem (ns @ [list_node ''bulletList'' items]) c
     = Inr (ns @ [list_node ''bulletList'' (items @ [listItem_node c])])"
  by (simp add: addBulletItem_def push_to_last_list_node)

lemma addOrderedItem_merge:
  "addOrderedItem (ns @ [list_node ''orderedList'' items]) c
     = Inr (ns @ [list_node ''orderedList'' (items @ [listItem_node c])])"
  by (simp add: addOrderedItem_def push_to_last_list_node)

lemma addBulletItem_new:
  "\<not> last_is nodes ''bulletList'' \<Longrightarrow>
     addBulletItem nodes c = Inr (nodes @ [list_node ''bulletList'' [listItem_node c]])"
  by (simp add: addBulletItem_def)

lemma addOrderedItem_new:
  "\<not> last_is nodes ''orderedList'' \<Longrightarrow>
     addOrderedItem nodes c = Inr (nodes @ [list_node ''orderedList'' [listItem_node c]])"
  by (simp add: addOrderedItem_def)

lemma bullet_line_step:
  assumes "startsWith line ''- '' \<or> startsWith line ''* ''"
  shows "process_line nodes line rest
           = map_sum id (\<lambda>ns. (ns, rest)) (addBulletItem nodes (parseInlineContent (drop 2 line)))"
proof -
  from assms obtain c r where l: "line = c # CHR '' '' # r" and c: "c = CHR ''-'' \<or> c = CHR ''*''"
    by (cases line; cases "tl line") (auto simp: startsWith_def)
  have "jiraHeading line = None"
    using l c by (auto simp: jiraHeading_def split: list.splits)
  moreover have "mdHeading line = None"
    using l c by (auto simp: mdHeading_def eval_nat_numeral)
  ultimately show ?thesis
    using assms by (auto simp: process_line_def)
qed

lemma merge_adjacent_bullets: "createADFDocument (JStr ''- a\<newline>- b'')
     = Inr (doc_node [list_node ''bulletList''
                        [listItem_node [text_node ''a''], listItem_node [text_node ''b'']]])"
  by code_simp

lemma merge_bullets_across_blank: "createADFDocument (JStr ''- a\<newline>\<newline>- b'')
     = Inr (doc_node [list_node ''bulletList''
                        [listItem_node [text_node ''a''], listItem_node [text_node ''b'']]])"
  by code_simp

lemma bullet_then_ordered: "createADFDocument (JStr ''- a\<newline>1. b'')
     = Inr (doc_node [list_node ''bulletList'' [listItem_node [text_node ''a'']],
                      list_node ''orderedList'' [listItem_node [text_node ''b'']]])"
  by code_simp


lemma ordered_line_step:
  assumes "ordered_marker line = Some t"
  shows "process_line nodes line rest
           = map_sum id (\<lambda>ns. (ns, rest)) (addOrderedItem nodes (parseInlineContent t))"
proof -
  from assms obtain c r where l: "line = c # r" and c: "isDigit c"
    by (cases line) (auto simp: ordered_marker_def split: if_splits)
  from c have c': "c \<noteq> CHR ''h''" "c \<noteq> CHR ''#''" "c \<noteq> CHR ''*''" "c \<noteq> CHR ''-''"
    by (auto simp: isDigit_def)
  have "jiraHeading line = None"
    using l c' by (auto simp: jiraHeading_def split: list.splits)
  moreover have "mdHeading line = None"
    using l c' by (auto simp: mdHeading_def eval_nat_numeral)
  moreover have "\<not> startsWith line ''* ''" "\<not> startsWith line ''- ''"
    using l c' by (auto simp: startsWith_def)
  ultimately show ?thesis
    using assms by (simp add: process_line_def)
qed

text \<open>
  C4. Whether a list line joins the current list depends only on the kind of the last
  emitted block. A blank line leaves the state of the loop untouched; a bullet line
  goes to \<open>addBulletItem\<close> and an ordered line to \<open>addOrderedItem\<close>; each appends to
  the last block when that is a list of its own kind, and starts a new list node
  otherwise, so a bullet list and an ordered list never merge.
\<close>

theorem list_runs_merge_by_last_block:
  "(trim raw = [] \<longrightarrow> build_blocks nodes (raw # rest) = build_blocks nodes rest)
   \<and> (startsWith line ''- '' \<or> startsWith line ''* '' \<longrightarrow>
        process_line nodes line rest
          = map_sum id (\<lambda>ns. (ns, rest)) (addBulletItem nodes (parseInlineContent (drop 2 line))))
   \<and> (ordered_marker oline = Some t \<longrightarrow>
        process_line nodes oline rest
          = map_sum id (\<lambda>ns. (ns, rest)) (addOrderedItem nodes (parseInlineContent t)))
   \<and> addBulletItem (ns @ [list_node ''bulletList'' items]) c
        = Inr (ns @ [list_node ''bulletList'' (items @ [listItem_node c])])
   \<and> addOrderedItem (ns @ [list_node ''orderedList'' items]) c
        = Inr (ns @ [list_node ''orderedList'' (items @ [listItem_node c])])
   \<and> (\<not> last_is nodes ''bulletList'' \<longrightarrow>
        addBulletItem nodes c = Inr (nodes @ [list_node ''bulletList'' [listItem_node c]]))
   \<and> (\<not> last_is nodes ''orderedList'' \<longrightarrow>
        addOrderedItem nodes c = Inr (nodes @ [list_node ''orderedList'' [listItem_node c]]))
   \<and> \<not> last_is (ns @ [list_node ''orderedList'' items]) ''bulletList''
   \<and> \<not> last_is (ns @ [list_node ''bulletList'' items]) ''orderedList''
   \<and> createADFDocument (JStr ''- a\<newline>- b'')
        = Inr (doc_node [list_node ''bulletList''
                           [listItem_node [text_node ''a''], listItem_node [text_node ''b'']]])
   \<and> createADFDocument (JStr ''- a\<newline>\<newline>- b'')
        = Inr (doc_node [list_node ''bulletList''
                           [listItem_node [text_node ''a''], listItem_node [text_node ''b'']]])
   \<and> createADFDocument (JStr ''- a\<newline>1. b'')
        = Inr (doc_node [list_node ''bulletList'' [listItem_node [text_node ''a'']],
                         list_node ''orderedList'' [listItem_node [text_node ''b'']]])"
  using bullet_line_step [of line nodes rest] ordered_line_step [of oline t nodes rest]
    addBulletItem_merge [of ns items c] addOrderedItem_merge [of ns items c]
    addBulletItem_new [of nodes c] addOrderedItem_new [of nodes c] merge_adjacent_bullets merge_bullets_across_blank bullet_then_ordered
  by simp

lemma trim_two_spaces: "trim ''  '' = []" by code_simp
lemma ordered_marker_1b: "ordered_marker ''1. b'' = Some ''b''" by code_simp
lemma startsWith_dash_a: "startsWith ''- a'' ''- ''" by code_simp
lemma last_is_rule: "\<not> last_is [rule_node] ''bulletList''" "\<not> last_is [rule_node] ''orderedList''" by code_simp+

theorem list_runs_merge_by_last_block_witness:
  "trim ''  '' = []
   \<and> build_blocks [rule_node] (''  '' # [''- a'']) = build_blocks [rule_node] [''- a'']
   \<and> startsWith ''- a'' ''- ''
   \<and> process_line [rule_node] ''- a'' [''- a'']
        = map_sum id (\<lambda>ns. (ns, [''- a''])) (addBulletItem [rule_node] (parseInlineContent (drop 2 ''- a'')))
   \<and> ordered_marker ''1. b'' = Some ''b''
   \<and> process_line [rule_node] ''1. b'' [''- a'']
        = map_sum id (\<lambda>ns. (ns, [''- a''])) (addOrderedItem [rule_node] (parseInlineContent ''b''))
   \<and> \<not> last_is [rule_node] ''bulletList''
   \<and> addBulletItem [rule_node] [text_node ''a'']
        = Inr ([rule_node] @ [list_node ''bulletList'' [listItem_node [text_node ''a'']]])
   \<and> \<not> last_is [rule_node] ''orderedList''
   \<and> addOrderedItem [rule_node] [text_node ''a'']
        = Inr ([rule_node] @ [list_node ''orderedList'' [listItem_node [text_node ''a'']]])"
  using list_runs_merge_by_last_block
    [of "''  ''" "[rule_node]" "[''- a'']" "''- a''" "''1. b''" "''b''" "[]" "[]" "[text_node ''a'']"]
    trim_two_spaces ordered_marker_1b startsWith_dash_a last_is_rule
  by simp

section \<open>Fence capture\<close>

lemma fence_line_step:
  assumes "startsWith line ''```''"
  shows "process_line nodes line rest
           = Inr (nodes @ [codeBlock_node (join [CHR 0x0A] (codeLines rest)) (fence_lang line)],
                  after_fence rest)"
proof -
  from assms obtain r where l: "line = CHR ''`'' # CHR ''`'' # CHR ''`'' # r"
    by (cases line; cases "tl line"; cases "tl (tl line)") (auto simp: startsWith_def)
  have "jiraHeading line = None"
    using l by (auto simp: jiraHeading_def split: list.splits)
  moreover have "mdHeading line = None"
    using l by (auto simp: mdHeading_def eval_nat_numeral)
  moreover have "ordered_marker line = None"
    using l by (simp add: ordered_marker_def isDigit_def)
  moreover have "\<not> startsWith line ''* ''" "\<not> startsWith line ''- ''" "\<not> startsWith line ''> ''"
    "line \<noteq> ''----''" "line \<noteq> ''---''"
    using l by (auto simp: startsWith_def)
  ultimately show ?thesis
    using assms by (simp add: process_line_def)
qed

lemma not_fence_close_fun: "not_fence_close = (\<lambda>l. trim l \<noteq> ''```'')"
  by (simp add: fun_eq_iff not_fence_close_def)

lemma fence_js: "createADFDocument (JStr ''```js\<newline>x=1\<newline>```'')
        = Inr (doc_node [codeBlock_node ''x=1'' (Some ''js'')])"
  by code_simp

lemma fence_open: "createADFDocument (JStr ''```\<newline>unterminated'')
        = Inr (doc_node [codeBlock_node ''unterminated'' None])"
  by code_simp

lemma fence_indented_close: "createADFDocument (JStr ''```\<newline>a\<newline> ```\<newline>b'')
        = Inr (doc_node [codeBlock_node ''a'' None, paragraph_node [text_node ''b'']])"
  by code_simp

lemma lines_indented_close: "split_newline ''```\<newline>a\<newline> ```\<newline>b'' = [''```'', ''a'', '' ```'', ''b'']"
  by code_simp

text \<open>
  C5, as the source has it. On a line that starts with the fence after \<open>trim\<close>, the
  loop takes the following lines as they are, up to the first line that is the bare
  fence after \<open>trim\<close> (so an indented closing fence ends the capture too) or to the end
  of the input, and pushes exactly one code block. The block has no \<open>content\<close> when the
  joined lines are empty, and its language is the trimmed text after the opening fence,
  when there is one.
\<close>

theorem fence_capture_until_trimmed_close:
  "(startsWith (trim raw) ''```'' \<longrightarrow>
      build_blocks nodes (raw # rest)
        = build_blocks
            (nodes @ [codeBlock_node
                        (join [CHR 0x0A] (takeWhile (\<lambda>l. trim l \<noteq> ''```'') rest))
                        (if length (trim raw) > 3 then Some (trim (drop 3 (trim raw))) else None)])
            (drop 1 (dropWhile (\<lambda>l. trim l \<noteq> ''```'') rest)))
   \<and> get_prop (codeBlock_node [] lang) ''content'' = Inr JUndefined
   \<and> (body \<noteq> [] \<longrightarrow>
        get_prop (codeBlock_node body lang) ''content'' = Inr (JArr [text_node body]))
   \<and> get_prop (codeBlock_node body None) ''attrs'' = Inr JUndefined
   \<and> (tag \<noteq> [] \<longrightarrow>
        get_prop (codeBlock_node body (Some tag)) ''attrs''
          = Inr (JObj [(''language'', JStr tag)]))
   \<and> createADFDocument (JStr ''```js\<newline>x=1\<newline>```'')
        = Inr (doc_node [codeBlock_node ''x=1'' (Some ''js'')])
   \<and> createADFDocument (JStr ''```\<newline>unterminated'')
        = Inr (doc_node [codeBlock_node ''unterminated'' None])
   \<and> createADFDocument (JStr ''```\<newline>a\<newline> ```\<newline>b'')
        = Inr (doc_node [codeBlock_node ''a'' None, paragraph_node [text_node ''b'']])"
proof -
  have "build_blocks nodes (raw # rest)
        = build_blocks
            (nodes @ [codeBlock_node
                        (join [CHR 0x0A] (takeWhile (\<lambda>l. trim l \<noteq> ''```'') rest))
                        (if length (trim raw) > 3 then Some (trim (drop 3 (trim raw))) else None)])
            (drop 1 (dropWhile (\<lambda>l. trim l \<noteq> ''```'') rest))"
    if a: "startsWith (trim raw) ''```''"
  proof -
    from a have "trim raw \<noteq> []" by (auto simp: startsWith_def)
    then show ?thesis
      using fence_line_step [OF a, of nodes rest]
      by (simp add: codeLines_def after_fence_def fence_lang_def not_fence_close_fun)
  qed
  moreover have "get_prop (codeBlock_node [] lang) ''content'' = Inr JUndefined"
    by (cases lang) (simp_all add: codeBlock_node_def)
  moreover have "get_prop (codeBlock_node body lang) ''content'' = Inr (JArr [text_node body])"
    if "body \<noteq> []"
    using that by (simp add: codeBlock_node_def)
  moreover have "get_prop (codeBlock_node body None) ''attrs'' = Inr JUndefined"
    by (simp add: codeBlock_node_def)
  moreover have "get_prop (codeBlock_node body (Some tag)) ''attrs''
          = Inr (JObj [(''language'', JStr tag)])" if "tag \<noteq> []"
    using that by (simp add: codeBlock_node_def)
  ultimately show ?thesis
    using fence_js fence_open fence_indented_close by simp
qed

lemma trim_fence_js: "trim ''  ```js'' = ''```js''" by code_simp
lemma startsWith_fence_js: "startsWith ''```js'' ''```''" by code_simp

theorem fence_capture_until_trimmed_close_witness:
  "startsWith (trim ''  ```js'') ''```''
   \<and> build_blocks [] [''  ```js'', '' x=1'', '' ``` '', ''b'']
        = build_blocks ([] @ [codeBlock_node '' x=1'' (Some ''js'')]) [''b'']
   \<and> get_prop (codeBlock_node ''x'' (Some ''js'')) ''content'' = Inr (JArr [text_node ''x''])
   \<and> get_prop (codeBlock_node ''x'' (Some ''js'')) ''attrs'' = Inr (JObj [(''language'', JStr ''js'')])"
proof -
  have h: "startsWith (trim ''  ```js'') ''```''"
    by code_simp
  have e1: "join [CHR 0x0A] (takeWhile (\<lambda>l. trim l \<noteq> ''```'') ['' x=1'', '' ``` '', ''b'']) = '' x=1''"
    by code_simp
  have e2: "drop 1 (dropWhile (\<lambda>l. trim l \<noteq> ''```'') ['' x=1'', '' ``` '', ''b'']) = [''b'']"
    by code_simp
  have e3: "(if length (trim ''  ```js'') > 3 then Some (trim (drop 3 (trim ''  ```js''))) else None)
             = Some ''js''"
    by code_simp
  have ne: "''x'' \<noteq> []" "''js'' \<noteq> []"
    by simp_all
  show ?thesis
    using fence_capture_until_trimmed_close
      [of "''  ```js''" "[]" "['' x=1'', '' ``` '', ''b'']" "Some ''js''" "''x''" "''js''"]
      h ne
    unfolding e1 e2 e3 by blast
qed

text \<open>
  C5 as stated fails: no line after the first is exactly the fence, yet the capture
  ends at the indented fence, and \<open>b\<close> becomes a paragraph instead of code text.
\<close>

theorem fence_closes_on_indented_line_counterexample:
  "''```'' \<notin> set (tl (split_newline ''```\<newline>a\<newline> ```\<newline>b''))
   \<and> createADFDocument (JStr ''```\<newline>a\<newline> ```\<newline>b'')
        = Inr (doc_node [codeBlock_node ''a'' None, paragraph_node [text_node ''b'']])
   \<and> createADFDocument (JStr ''```\<newline>a\<newline> ```\<newline>b'')
        \<noteq> Inr (doc_node [codeBlock_node ''a\<newline> ```\<newline>b'' None])"
  by (simp add: fence_indented_close lines_indented_close doc_node_def codeBlock_node_def)

section \<open>Plain lines\<close>

lemma delimited_first:
  "delimited (o1 # opn) stop cls (c # cs) = Some x \<Longrightarrow> c = o1"
  by (auto simp: delimited_def startsWith_def split: if_splits)

lemma match_at_first: "match_at (c # cs) = Some x \<Longrightarrow> inline_delimiter c"
  unfolding match_at_def link_paren_def link_pipe_def inline_delimiter_def
  by (auto split: option.splits dest: delimited_first)

lemma scan_spans_plain:
  "\<forall>c \<in> set s. \<not> inline_delimiter c \<Longrightarrow>
     scan_spans p s = (if p @ s = [] then [] else [text_node (p @ s)])"
proof (induction s arbitrary: p)
  case Nil
  then show ?case by simp
next
  case (Cons c cs)
  from Cons.prems have "match_at (c # cs) = None"
    using match_at_first [of c cs] by (cases "match_at (c # cs)") auto
  with Cons show ?case by simp
qed

lemma parseInlineContent_plain:
  "\<forall>c \<in> set s. \<not> inline_delimiter c \<Longrightarrow> s \<noteq> [] \<Longrightarrow> parseInlineContent s = [text_node s]"
  by (simp add: parseInlineContent_def scan_spans_plain)

lemma split_newline_single: "CHR 0x0A \<notin> set s \<Longrightarrow> split_newline s = [s]"
  by (induction s) auto

lemma paragraph_line_step:
  assumes "paragraph_line line"
  shows "process_line nodes line rest
           = Inr (nodes @ [paragraph_node (parseInlineContent line)], rest)"
proof -
  from assms have "line \<noteq> ''```''"
    by (auto simp: paragraph_line_def startsWith_def)
  with assms show ?thesis
    by (simp add: process_line_def paragraph_line_def)
qed

lemma render_paragraph: "blockNodeToText (paragraph_node c) = inlineNodesToText (JArr c)"
  by (subst blockNodeToText.simps) (simp add: paragraph_node_def)

lemma render_plain_paragraph:
  "adfToText (doc_node [paragraph_node [text_node s]]) = Inr s"
proof -
  have "inlineNodesToText (JArr [text_node s]) = Inr s"
    by (simp add: text_node_def inlineNodesToText_def inline_node_text_def or_else_def
        to_string_def)
  then show ?thesis
    by (simp add: adfToText_def doc_node_def render_paragraph)
qed

text \<open>
  C6, as the source has it. A non-empty single line without leading or trailing white
  space and without special markers parses to exactly one paragraph that holds the line
  as one plain run, and that document renders as the line.
\<close>

theorem plain_line_round_trip:
  "plain_line s \<longrightarrow>
     createADFDocument (JStr s) = Inr (doc_node [paragraph_node [text_node s]])
     \<and> adfToText (doc_node [paragraph_node [text_node s]]) = Inr s"
proof
  assume p: "plain_line s"
  then have "build_blocks [] (split_newline s) = Inr [paragraph_node [text_node s]]"
    by (simp add: plain_line_def split_newline_single paragraph_line_step parseInlineContent_plain)
  with p show "createADFDocument (JStr s) = Inr (doc_node [paragraph_node [text_node s]])
     \<and> adfToText (doc_node [paragraph_node [text_node s]]) = Inr s"
    by (simp add: createADFDocument_def plain_line_def render_plain_paragraph)
qed

lemma plain_line_hello: "plain_line ''hello, world''"
  unfolding plain_line_def paragraph_line_def inline_delimiter_def
  by code_simp

theorem plain_line_round_trip_witness:
  "plain_line ''hello, world''
   \<and> createADFDocument (JStr ''hello, world'')
       = Inr (doc_node [paragraph_node [text_node ''hello, world'']])
   \<and> adfToText (doc_node [paragraph_node [text_node ''hello, world'']]) = Inr ''hello, world''"
  using plain_line_round_trip [of "''hello, world''"] plain_line_hello by blast

lemma two_plain_lines: "createADFDocument (JStr ''a\<newline>b'')
       = Inr (doc_node [paragraph_node [text_node ''a''], paragraph_node [text_node ''b'']])"
  by code_simp

lemma leading_space: "createADFDocument (JStr '' a'') = Inr (doc_node [paragraph_node [text_node ''a'']])"
  by code_simp

text \<open>
  C6 as stated fails. The string of the two lines \<open>a\<close> and \<open>b\<close> has no blank line and
  no marker and parses to two paragraphs; the string \<open>a\<close> after a space parses to one
  paragraph that renders as \<open>a\<close>, without the space.
\<close>

theorem two_lines_two_paragraphs_counterexample:
  "createADFDocument (JStr ''a\<newline>b'')
       = Inr (doc_node [paragraph_node [text_node ''a''], paragraph_node [text_node ''b'']])
   \<and> split_newline ''a\<newline>b'' = [''a'', ''b'']
   \<and> createADFDocument (JStr '' a'') = Inr (doc_node [paragraph_node [text_node ''a'']])
   \<and> adfToText (doc_node [paragraph_node [text_node ''a'']]) = Inr ''a''
   \<and> ''a'' \<noteq> '' a''"
  using two_plain_lines leading_space render_plain_paragraph [of "''a''"] by simp

section \<open>The parser on every string\<close>

lemma wf_inline_text: "t \<noteq> [] \<Longrightarrow> wf_inline (text_node t)"
  by (simp add: wf_inline_def text_node_def has_type_def nonempty_string_def)

lemma wf_mark_object: "wf_mark (mark_object k)"
  by (cases k) (simp_all add: wf_mark_def simple_mark_def link_mark_def has_type_def is_string_def)

lemma wf_inline_span: "span_node n \<Longrightarrow> wf_inline n"
  by (auto simp: span_node_def wf_inline_def marked_node_def has_type_def nonempty_string_def
      array_all_def wf_mark_object)

lemma scan_spans_nodes:
  "n \<in> set (scan_spans p s) \<Longrightarrow> (\<exists>t. t \<noteq> [] \<and> n = text_node t) \<or> span_node n"
proof (induction p s rule: scan_spans.induct)
  case (1 pending)
  then show ?case by (auto split: if_splits)
next
  case (2 pending c cs)
  show ?case
  proof (cases "match_at (c # cs)")
    case None
    with 2 show ?thesis by simp
  next
    case (Some m)
    obtain node rest where m: "m = (node, rest)" by (cases m)
    from match_at_node [of "c # cs" node rest] Some m
    have node: "span_node node" by simp
    have ih: "n \<in> set (scan_spans [] rest) \<Longrightarrow> (\<exists>t. t \<noteq> [] \<and> n = text_node t) \<or> span_node n"
      using "2.IH"(2) [OF Some m [symmetric]] by simp
    from "2.prems" Some m
    have "(pending \<noteq> [] \<and> n = text_node pending) \<or> n = node \<or> n \<in> set (scan_spans [] rest)"
      by (auto split: if_splits)
    then show ?thesis
      using node ih by auto
  qed
qed

lemma wf_parseInlineContent: "list_all wf_inline (parseInlineContent t)"
  unfolding list_all_iff parseInlineContent_def Let_def
  by (auto dest!: scan_spans_nodes intro: wf_inline_text wf_inline_span)

lemma wf_paragraph_node: "wf_paragraph (paragraph_node (parseInlineContent t))"
  by (simp add: wf_paragraph_def paragraph_node_def has_type_def array_all_def
      wf_parseInlineContent)

lemma wf_listItem_node: "wf_listItem (listItem_node (parseInlineContent t))"
  using wf_paragraph_node [of t]
  by (simp add: wf_listItem_def listItem_node_def has_type_def)

lemma hashes_level: "hashes k s = Some (n, t) \<Longrightarrow> 1 \<le> n \<and> n \<le> k"
proof (induction k s arbitrary: n t rule: hashes.induct)
  case (3 k c cs)
  show ?case
  proof (cases "hashes k cs")
    case None
    with 3 show ?thesis by (auto split: if_splits)
  next
    case (Some a)
    obtain n' t' where a: "a = (n', t')" by (cases a)
    with 3 Some have "n = Suc n'" "1 \<le> n' \<and> n' \<le> k"
      by (auto split: if_splits)
    then show ?thesis by simp
  qed
qed simp_all

lemma wf_heading_md:
  "mdHeading line = Some (n, t) \<Longrightarrow> wf_block (heading_node (int n) (parseInlineContent t))"
  using hashes_level [of 6 line n t]
  by (simp add: mdHeading_def wf_block_def wf_heading_def heading_node_def has_type_def
      array_all_def wf_parseInlineContent)

lemma wf_heading_jira:
  assumes "jiraHeading line = Some (d, t)"
  shows "wf_block (heading_node (parseInt d) (parseInlineContent t))"
proof -
  from assms have "d \<in> set ''123456''"
    by (auto simp: jiraHeading_def split: list.splits if_splits)
  then have "1 \<le> parseInt d \<and> parseInt d \<le> 6"
    by (auto simp: parseInt_def)
  then show ?thesis
    by (simp add: wf_block_def wf_heading_def heading_node_def has_type_def
        array_all_def wf_parseInlineContent)
qed


lemma typed_object:
  "get_prop b ''type'' = Inr (JStr k) \<Longrightarrow> \<exists>kv. b = JObj kv \<and> map_of kv ''type'' = Some (JStr k)"
  by (cases b) (auto split: option.splits)

lemma opt_prop_update:
  "opt_prop (JObj (AList.update ''content'' v kv)) k
     = (if k = ''content'' then v else opt_prop (JObj kv) k)"
  by (simp add: update_conv')

lemma push_content_array:
  assumes "opt_prop b ''content'' = JArr xs"
  shows "\<exists>kv. b = JObj kv
          \<and> push_content b x = Inr (JObj (AList.update ''content'' (JArr (xs @ [x])) kv))"
proof (cases b)
  case (JObj kv)
  with assms have "map_of kv ''content'' = Some (JArr xs)"
    by (auto split: option.splits)
  with JObj show ?thesis
    by (simp add: push_content_def)
qed (use assms in simp_all)

lemma wf_block_list:
  assumes "wf_block b" and "has_type b kind"
    and "kind = ''bulletList'' \<or> kind = ''orderedList''"
  shows "wf_list kind b"
  using assms
  unfolding wf_block_def wf_paragraph_def wf_heading_def wf_list_def wf_blockquote_def
    wf_codeBlock_def has_type_def
  by auto

lemma wf_block_quote:
  assumes "wf_block b" and "has_type b ''blockquote''"
  shows "wf_blockquote b"
  using assms
  unfolding wf_block_def wf_paragraph_def wf_heading_def wf_list_def wf_blockquote_def
    wf_codeBlock_def has_type_def
  by auto

lemma push_list_item:
  assumes "wf_list kind b" and "wf_listItem x"
  shows "\<exists>n. push_content b x = Inr n \<and> wf_list kind n"
proof -
  from assms(1) obtain xs where xs: "opt_prop b ''content'' = JArr xs" "list_all wf_listItem xs"
    by (auto simp: wf_list_def array_all_def split: json.splits)
  from push_content_array [OF xs(1), of x] obtain kv where
    kv: "b = JObj kv" "push_content b x = Inr (JObj (AList.update ''content'' (JArr (xs @ [x])) kv))"
    by blast
  have "wf_list kind (JObj (AList.update ''content'' (JArr (xs @ [x])) kv))"
    using assms xs kv(1)
    by (simp add: wf_list_def has_type_def opt_prop_update array_all_def array_nonempty_def
        del: opt_prop.simps)
  with kv(2) show ?thesis by simp
qed

lemma push_quote_paragraph:
  assumes "wf_blockquote b" and "wf_paragraph x"
  shows "\<exists>n. push_content b x = Inr n \<and> wf_blockquote n"
proof -
  from assms(1) obtain xs where xs: "opt_prop b ''content'' = JArr xs" "list_all wf_paragraph xs"
    by (auto simp: wf_blockquote_def array_all_def split: json.splits)
  from push_content_array [OF xs(1), of x] obtain kv where
    kv: "b = JObj kv" "push_content b x = Inr (JObj (AList.update ''content'' (JArr (xs @ [x])) kv))"
    by blast
  have "wf_blockquote (JObj (AList.update ''content'' (JArr (xs @ [x])) kv))"
    using assms xs kv(1)
    by (simp add: wf_blockquote_def has_type_def opt_prop_update array_all_def array_nonempty_def
        del: opt_prop.simps)
  with kv(2) show ?thesis by simp
qed

lemma last_is_has_type: "last_is nodes kind \<Longrightarrow> has_type (last nodes) kind"
  by (auto simp: last_is_def has_type_def dest!: typed_object)

lemma good_butlast:
  "list_all wf_block nodes \<Longrightarrow> wf_block n \<Longrightarrow> good_nodes (butlast nodes @ [n])"
  by (auto simp: good_nodes_def list_all_iff dest: in_set_butlastD)

lemma good_snoc:
  "list_all wf_block nodes \<Longrightarrow> wf_block n \<Longrightarrow> good_nodes (nodes @ [n])"
  by (simp add: good_nodes_def)

lemma wf_new_list:
  "kind = ''bulletList'' \<or> kind = ''orderedList'' \<Longrightarrow>
     wf_block (list_node kind [listItem_node (parseInlineContent t)])"
  using wf_listItem_node [of t]
  by (auto simp: wf_block_def wf_list_def list_node_def has_type_def array_all_def
      array_nonempty_def)

lemma wf_new_quote:
  "wf_block (list_node ''blockquote'' [paragraph_node (parseInlineContent t)])"
  using wf_paragraph_node [of t]
  by (simp add: wf_block_def wf_blockquote_def list_node_def has_type_def array_all_def
      array_nonempty_def)

lemma addBulletItem_wf:
  assumes "list_all wf_block nodes"
  shows "\<exists>ns. addBulletItem nodes (parseInlineContent t) = Inr ns \<and> good_nodes ns"
proof (cases "last_is nodes ''bulletList''")
  case True
  then have "nodes \<noteq> []" by (simp add: last_is_def)
  with assms have "wf_block (last nodes)" by (simp add: list_all_iff)
  with True have "wf_list ''bulletList'' (last nodes)"
    using wf_block_list last_is_has_type by blast
  from push_list_item [OF this wf_listItem_node [of t]] obtain n where
    n: "push_content (last nodes) (listItem_node (parseInlineContent t)) = Inr n"
       "wf_list ''bulletList'' n"
    by blast
  then have "wf_block n" by (simp add: wf_block_def)
  with n(1) True assms show ?thesis
    by (simp add: addBulletItem_def push_to_last_def good_butlast)
next
  case False
  with assms show ?thesis
    by (simp add: addBulletItem_def good_snoc wf_new_list)
qed

lemma addOrderedItem_wf:
  assumes "list_all wf_block nodes"
  shows "\<exists>ns. addOrderedItem nodes (parseInlineContent t) = Inr ns \<and> good_nodes ns"
proof (cases "last_is nodes ''orderedList''")
  case True
  then have "nodes \<noteq> []" by (simp add: last_is_def)
  with assms have "wf_block (last nodes)" by (simp add: list_all_iff)
  with True have "wf_list ''orderedList'' (last nodes)"
    using wf_block_list last_is_has_type by blast
  from push_list_item [OF this wf_listItem_node [of t]] obtain n where
    n: "push_content (last nodes) (listItem_node (parseInlineContent t)) = Inr n"
       "wf_list ''orderedList'' n"
    by blast
  then have "wf_block n" by (simp add: wf_block_def)
  with n(1) True assms show ?thesis
    by (simp add: addOrderedItem_def push_to_last_def good_butlast)
next
  case False
  with assms show ?thesis
    by (simp add: addOrderedItem_def good_snoc wf_new_list)
qed

lemma addQuoteLine_wf:
  assumes "list_all wf_block nodes"
  shows "\<exists>ns. addQuoteLine nodes t = Inr ns \<and> good_nodes ns"
proof (cases "last_is nodes ''blockquote''")
  case True
  then have "nodes \<noteq> []" by (simp add: last_is_def)
  with assms have "wf_block (last nodes)" by (simp add: list_all_iff)
  with True have "wf_blockquote (last nodes)"
    using wf_block_quote last_is_has_type by blast
  from push_quote_paragraph [OF this wf_paragraph_node [of t]] obtain n where
    n: "push_content (last nodes) (paragraph_node (parseInlineContent t)) = Inr n"
       "wf_blockquote n"
    by blast
  then have "wf_block n" by (simp add: wf_block_def)
  with n(1) True assms show ?thesis
    by (simp add: addQuoteLine_def push_to_last_def good_butlast)
next
  case False
  with assms show ?thesis
    by (simp add: addQuoteLine_def good_snoc wf_new_quote)
qed

lemma wf_codeBlock_node: "wf_block (codeBlock_node t lang)"
  by (cases lang)
    (simp_all add: wf_block_def wf_codeBlock_def codeBlock_node_def has_type_def
      nonempty_string_def wf_inline_def text_node_def)

lemma wf_rule_node: "wf_block rule_node"
  by (simp add: wf_block_def rule_node_def has_type_def)

lemma good_step_Inr [simp]: "good_step (Inr (ns, r)) = good_nodes ns"
  by (simp add: good_step_def)

lemma good_step_map_sum:
  "\<exists>ns. x = Inr ns \<and> good_nodes ns \<Longrightarrow> good_step (map_sum id (\<lambda>ns. (ns, rest)) x)"
  by (auto simp: good_step_def)

lemma process_line_wf:
  assumes "list_all wf_block nodes"
  shows "good_step (process_line nodes line rest)"
proof (cases "jiraHeading line")
  case (Some a)
  obtain d t where a: "a = (d, t)" by (cases a)
  with Some assms show ?thesis
    by (simp add: process_line_def good_snoc wf_heading_jira)
next
  case jh: None
  show ?thesis
  proof (cases "mdHeading line")
    case (Some a)
    obtain n t where a: "a = (n, t)" by (cases a)
    with Some jh assms show ?thesis
      by (simp add: process_line_def good_snoc wf_heading_md)
  next
    case md: None
    show ?thesis
    proof (cases "startsWith line ''* '' \<or> startsWith line ''- ''")
      case True
      have "good_step (map_sum id (\<lambda>ns. (ns, rest))
              (addBulletItem nodes (parseInlineContent (drop 2 line))))"
        by (rule good_step_map_sum) (rule addBulletItem_wf [OF assms])
      with True jh md show ?thesis
        by (simp add: process_line_def)
    next
      case nb: False
      show ?thesis
      proof (cases "ordered_marker line")
        case (Some t)
        have "good_step (map_sum id (\<lambda>ns. (ns, rest))
                (addOrderedItem nodes (parseInlineContent t)))"
          by (rule good_step_map_sum) (rule addOrderedItem_wf [OF assms])
        with Some nb jh md show ?thesis
          by (simp add: process_line_def)
      next
        case om: None
        show ?thesis
        proof (cases "startsWith line ''> ''")
          case True
          have "good_step (map_sum id (\<lambda>ns. (ns, rest)) (addQuoteLine nodes (drop 2 line)))"
            by (rule good_step_map_sum) (rule addQuoteLine_wf [OF assms])
          with True om nb jh md show ?thesis
            by (simp add: process_line_def)
        next
          case nq: False
          have p: "wf_block (paragraph_node (parseInlineContent line))"
            using wf_paragraph_node [of line] by (simp add: wf_block_def)
          from nq om nb jh md assms show ?thesis
            by (simp add: process_line_def good_snoc wf_codeBlock_node wf_rule_node p)
        qed
      qed
    qed
  qed
qed

lemma build_blocks_wf:
  "list_all wf_block nodes \<Longrightarrow> \<exists>ns. build_blocks nodes ls = Inr ns \<and> list_all wf_block ns"
proof (induction nodes ls rule: build_blocks.induct)
  case (1 nodes)
  then show ?case by simp
next
  case (2 nodes raw rest)
  show ?case
  proof (cases "trim raw = []")
    case True
    with 2 show ?thesis by simp
  next
    case False
    from process_line_wf [OF "2.prems", of "trim raw" rest]
    obtain ns r where step: "process_line nodes (trim raw) rest = Inr (ns, r)" "good_nodes ns"
      by (auto simp: good_step_def split: sum.splits)
    then have "list_all wf_block ns" by (simp add: good_nodes_def)
    from "2.IH"(2) [OF False step(1) refl this] False step(1)
    show ?thesis by simp
  qed
qed

lemma createADFDocument_wf: "\<exists>d. createADFDocument (JStr s) = Inr d \<and> wf_document d"
proof -
  have e: "wf_document (doc_node [paragraph_node []])"
    by (simp add: wf_document_def doc_node_def has_type_def array_nonempty_def array_all_def
        wf_block_def wf_paragraph_def paragraph_node_def)
  have d: "ns \<noteq> [] \<Longrightarrow> list_all wf_block ns \<Longrightarrow> wf_document (doc_node ns)" for ns
    by (simp add: wf_document_def doc_node_def has_type_def array_nonempty_def array_all_def)
  from build_blocks_wf [of "[]" "split_newline s"]
  obtain ns where "build_blocks [] (split_newline s) = Inr ns" "list_all wf_block ns"
    by auto
  then show ?thesis
    using e d by (simp add: createADFDocument_def)
qed

lemma scan_spans_no_span:
  "no_span s \<Longrightarrow> scan_spans p s = (if p @ s = [] then [] else [text_node (p @ s)])"
  by (induction s arbitrary: p) simp_all

lemma parseInlineContent_no_span:
  "no_span t \<Longrightarrow> t \<noteq> [] \<Longrightarrow> parseInlineContent t = [text_node t]"
  by (simp add: parseInlineContent_def scan_spans_no_span)


lemma build_blocks_plain:
  assumes "\<forall>l \<in> set (plain_lines ls). paragraph_line l \<and> no_span l"
  shows "build_blocks nodes ls = Inr (nodes @ map plain_paragraph (plain_lines ls))"
  using assms
proof (induction ls arbitrary: nodes)
  case Nil
  then show ?case by (simp add: plain_lines_def)
next
  case (Cons raw rest)
  show ?case
  proof (cases "trim raw = []")
    case True
    with Cons show ?thesis by (simp add: plain_lines_def)
  next
    case False
    with Cons.prems have p: "paragraph_line (trim raw)" "no_span (trim raw)"
      and r: "\<forall>l \<in> set (plain_lines rest). paragraph_line l \<and> no_span l"
      by (simp_all add: plain_lines_def)
    have "process_line nodes (trim raw) rest
        = Inr (nodes @ [plain_paragraph (trim raw)], rest)"
      using paragraph_line_step [OF p(1)] parseInlineContent_no_span [OF p(2) False]
      by (simp add: plain_paragraph_def)
    with False Cons.IH [OF r, of "nodes @ [plain_paragraph (trim raw)]"] show ?thesis
      by (simp add: plain_lines_def)
  qed
qed

text \<open>
  The current copy of the parser is total: on every string it returns, without an
  exception, a well-formed document. Text that matches no pattern becomes plain text:
  when the expression of the tokenizer matches nowhere in the lines of the input and
  every line passes every marker test, the document holds one paragraph of one plain
  run for each line that is not blank, in the order of the lines.
\<close>

lemma current_parser_total:
  "(\<exists>d. createADFDocument (JStr s) = Inr d \<and> wf_document d)
   \<and> ((\<forall>l \<in> set (plain_lines (split_newline s)). paragraph_line l \<and> no_span l)
        \<and> plain_lines (split_newline s) \<noteq> [] \<longrightarrow>
        createADFDocument (JStr s)
          = Inr (doc_node (map plain_paragraph (plain_lines (split_newline s)))))"
proof -
  have "createADFDocument (JStr s)
          = Inr (doc_node (map plain_paragraph (plain_lines (split_newline s))))"
    if a: "\<forall>l \<in> set (plain_lines (split_newline s)). paragraph_line l \<and> no_span l"
      and n: "plain_lines (split_newline s) \<noteq> []"
  proof -
    from n have "s \<noteq> []" by (auto simp: plain_lines_def trim_def)
    with build_blocks_plain [OF a, of "[]"] n show ?thesis
      by (simp add: createADFDocument_def)
  qed
  with createADFDocument_wf [of s] show ?thesis by blast
qed

subsection \<open>The older copy\<close>

lemma legacy_returns: "\<exists>d. legacy_createADFDocument (JStr s) = Inr d"
  by (simp add: legacy_createADFDocument_def)

lemma legacy_unmatched_link: "legacy_createADFDocument (JStr ''- [a|b]'') = Inr (doc_node [])"
  by code_simp

lemma legacy_empty_input: "legacy_createADFDocument (JStr []) = Inr (doc_node [])"
  by code_simp

lemma current_unmatched_link:
  "createADFDocument (JStr ''- [a|b]'')
     = Inr (doc_node [list_node ''bulletList'' [listItem_node [marked_node ''a'' (link_mark ''b'')]]])"
  by code_simp

lemma legacy_plain_line:
  "legacy_createADFDocument (JStr ''- [ab]'') = Inr (doc_node [plain_paragraph ''- [ab]''])"
  by code_simp

lemma no_block_not_wf: "\<not> wf_document (doc_node [])"
  by (simp add: wf_document_def doc_node_def array_nonempty_def)

text \<open>
  C8 at two inputs of the older copy in \<open>src/index.js\<close>. The line \<open>- [a|b]\<close> enters
  the link branch, whose expression asks for a text after the bracket and does not
  match; the branch then pushes nothing, so the line is dropped instead of becoming
  plain text, and the document has no block. The same function keeps the line
  \<open>- [ab]\<close>, which has no \<open>|\<close>, as a plain paragraph in its last branch. The empty
  string gives a document without a block too. Neither result is a well-formed
  document. The current copy
  turns the same line into a list item with a link, and the empty string into the
  document of one empty paragraph.
\<close>

theorem legacy_parser_drops_line:
  "legacy_createADFDocument (JStr ''- [a|b]'') = Inr (doc_node [])
   \<and> legacy_createADFDocument (JStr ''- [ab]'') = Inr (doc_node [plain_paragraph ''- [ab]''])
   \<and> legacy_createADFDocument (JStr []) = Inr (doc_node [])
   \<and> \<not> wf_document (doc_node [])
   \<and> createADFDocument (JStr ''- [a|b]'')
       = Inr (doc_node [list_node ''bulletList''
                          [listItem_node [marked_node ''a'' (link_mark ''b'')]]])
   \<and> createADFDocument (JStr []) = Inr (doc_node [paragraph_node []])"
  using legacy_unmatched_link legacy_plain_line legacy_empty_input no_block_not_wf
    current_unmatched_link
  by (simp add: createADFDocument_def)

section \<open>One pass of parsing and rendering\<close>





subsection \<open>Rendering the tokens of a text gives the text back\<close>














subsection \<open>Rendering the blocks\<close>





























subsection \<open>Trimmed strings\<close>




lemma isSpace_simps [simp]:
  "isSpace (CHR '' '')" "\<not> isSpace (CHR ''#'')" "\<not> isSpace (CHR ''-'')" "\<not> isSpace (CHR ''>'')"
  "\<not> isSpace (CHR ''.'')" "\<not> isSpace (CHR ''`'')" "\<not> isSpace (CHR ''*'')" "\<not> isSpace (CHR ''h'')"
  by (simp_all add: isSpace_def)


lemma line_terminator_space: "isLineTerminator c \<Longrightarrow> isSpace c"
  by (auto simp: isLineTerminator_def isSpace_def)

subsection \<open>The heading patterns\<close>






subsection \<open>Adding a block to a block list\<close>
















subsection \<open>The branches of the loop body\<close>






subsection \<open>From a line of the input to a block\<close>












subsection \<open>Parsing the rendered lines again\<close>



















subsection \<open>The round trip\<close>









end
